theory Spec2Isabelle
  imports Complex_Main "HOL-Library.Log_Nat" "HOL-Library.Word"
begin

section \<open>JavaScript values used by app.js\<close>

subsection \<open>Strings\<close>

text \<open>
  A JavaScript string is a sequence of UTF-16 code units; \<open>split('')\<close>, \<open>s[i]\<close> and
  \<open>length\<close> all count code units. The filler alphabet of app.js contains U+2014, which
  is one code unit but not a byte, so strings are lists of 16-bit words.
\<close>

type_synonym code_unit = "16 word"
type_synonym jsstring = "code_unit list"

text \<open>
  \<open>s[i]\<close>: the one-unit string at position \<open>i\<close>, or \<open>undefined\<close> (here \<open>None\<close>)
  when \<open>i\<close> is not an index of \<open>s\<close>.
\<close>

definition char_at :: "jsstring \<Rightarrow> int \<Rightarrow> jsstring option" where
  "char_at s i = (if 0 \<le> i \<and> i < int (length s) then Some [s ! nat i] else None)"

text \<open>\<open>Array.prototype.join('')\<close>: an \<open>undefined\<close> element contributes the empty string.\<close>

definition join_empty :: "jsstring option list \<Rightarrow> jsstring" where
  "join_empty xs = concat (map (\<lambda>v. case v of None \<Rightarrow> [] | Some s \<Rightarrow> s) xs)"

subsection \<open>Numbers of the glitch counter\<close>

text \<open>
  JavaScript numbers are IEEE 754 doubles. A finite double is modelled by the rational it
  denotes, and an arithmetic operation by the exact operation followed by rounding to the
  nearest double, ties to even (53 significant bits). The exponent range is not modelled:
  the counter \<open>iterations\<close> stays between \<open>1/4\<close> and \<open>2^53\<close> once it has left 0.
\<close>

definition pow2 :: "int \<Rightarrow> rat" where
  "pow2 e = (if 0 \<le> e then 2 ^ nat e else 1 / 2 ^ nat (- e))"

text \<open>The binary exponent of a positive rational: \<open>pow2 (ilog2 x) \<le> x < pow2 (ilog2 x + 1)\<close>.\<close>

definition ilog2 :: "rat \<Rightarrow> int" where
  "ilog2 x = (if 1 \<le> x then bitlen \<lfloor>x\<rfloor> - 1 else - bitlen (\<lceil>1 / x\<rceil> - 1))"

definition round_ties_even :: "rat \<Rightarrow> int" where
  "round_ties_even q =
     (let f = \<lfloor>q\<rfloor>; r = q - of_int f
      in if r < 1 / 2 then f else if 1 / 2 < r then f + 1 else if even f then f else f + 1)"

definition to_double :: "rat \<Rightarrow> rat" where
  "to_double x =
     (if x = 0 then 0
      else let u = pow2 (ilog2 \<bar>x\<bar> - 52)
           in sgn x * of_int (round_ties_even (\<bar>x\<bar> / u)) * u)"

definition dadd :: "rat \<Rightarrow> rat \<Rightarrow> rat" where
  "dadd a b = to_double (a + b)"

definition ddiv :: "rat \<Rightarrow> rat \<Rightarrow> rat" where
  "ddiv a b = to_double (a / b)"

section \<open>Glitch effect (app.js, lines 137-164)\<close>

text \<open>
  \<open>const chars = '!<>-_\\/[]{}\<emdash>=+*^?#________'\<close>: 26 code units, the escaped
  backslash being one unit and the dash U+2014.
\<close>

definition chars :: jsstring where
  "chars = [0x21, 0x3C, 0x3E, 0x2D, 0x5F, 0x5C, 0x2F, 0x5B, 0x5D, 0x7B, 0x7D, 0x2014,
            0x3D, 0x2B, 0x2A, 0x5E, 0x3F, 0x23,
            0x5F, 0x5F, 0x5F, 0x5F, 0x5F, 0x5F, 0x5F, 0x5F]"

text \<open>
  The state a tick of the interval reads and writes: the string last assigned to the
  element's \<open>innerText\<close> (at the start, the text the element has), the closure
  variable \<open>iterations\<close>, and whether \<open>clearInterval\<close> has been called.

  Reading \<open>innerText\<close> does not return the assigned string but the text as rendered:
  white space at either end or repeated may be gone, and style sheets can change more.
  The getter is the browser's; it is the parameter \<open>render\<close> of a tick, which maps
  over \<open>render\<close> of the assigned string.
\<close>

record glitch =
  innerText :: jsstring
  iterations :: rat
  cleared :: bool

text \<open>
  The callback of \<open>map\<close>. The argument \<open>letter\<close> is never used by the source, so only
  the index is passed. \<open>r index\<close> is the value \<open>Math.random()\<close> returns for that index.
  Its product with \<open>chars.length\<close> is taken exactly; the rounded product of a double
  below 1 with 26 stays below 26 as well, so both select an index of \<open>chars\<close>.
\<close>

definition glitch_letter :: "jsstring \<Rightarrow> rat \<Rightarrow> (nat \<Rightarrow> rat) \<Rightarrow> nat \<Rightarrow> jsstring option" where
  "glitch_letter originalText its r index =
     (if of_nat index < its then char_at originalText (int index)
      else char_at chars \<lfloor>r index * of_nat (length chars)\<rfloor>)"

text \<open>One run of the interval callback (lines 145-158).\<close>

definition tick ::
    "(jsstring \<Rightarrow> jsstring) \<Rightarrow> jsstring \<Rightarrow> (nat \<Rightarrow> rat) \<Rightarrow> glitch \<Rightarrow> glitch" where
  "tick render originalText r g =
     \<lparr> innerText = join_empty (map (glitch_letter originalText (iterations g) r)
                                   [0..<length (render (innerText g))]),
       iterations = dadd (iterations g) (ddiv 1 3),
       cleared = (of_nat (length originalText) \<le> iterations g) \<rparr>"

text \<open>
  The interval fires until it is cleared. \<open>rs t\<close> holds the random draws of tick number
  \<open>t\<close>. The loop may in principle never end, so it is a partial function.
\<close>

partial_function (option) glitch_run ::
    "(jsstring \<Rightarrow> jsstring) \<Rightarrow> jsstring \<Rightarrow> (nat \<Rightarrow> nat \<Rightarrow> rat) \<Rightarrow> nat \<Rightarrow> glitch
       \<Rightarrow> glitch option" where
  "glitch_run render originalText rs t g =
     (let g' = tick render originalText (rs t) g
      in if cleared g' then Some g' else glitch_run render originalText rs (Suc t) g')"

declare glitch_run.simps [code]

definition glitch_start :: "jsstring \<Rightarrow> glitch" where
  "glitch_start text = \<lparr> innerText = text, iterations = 0, cleared = False \<rparr>"

definition startGlitch ::
    "(jsstring \<Rightarrow> jsstring) \<Rightarrow> jsstring \<Rightarrow> (nat \<Rightarrow> nat \<Rightarrow> rat) \<Rightarrow> jsstring \<Rightarrow> glitch option" where
  "startGlitch render originalText rs text =
     glitch_run render originalText rs 0 (glitch_start text)"

text \<open>The state after the first \<open>m\<close> firings of the interval (none after it is cleared).\<close>

fun ticks_n ::
    "(jsstring \<Rightarrow> jsstring) \<Rightarrow> jsstring \<Rightarrow> (nat \<Rightarrow> nat \<Rightarrow> rat) \<Rightarrow> nat \<Rightarrow> glitch \<Rightarrow> glitch" where
  "ticks_n render originalText rs 0 g = g"
| "ticks_n render originalText rs (Suc m) g =
     (let g' = ticks_n render originalText rs m g
      in if cleared g' then g' else tick render originalText (rs m) g')"

text \<open>\<open>Math.random()\<close> returns a number in the half-open interval from 0 to 1.\<close>

definition random_ok :: "(nat \<Rightarrow> rat) \<Rightarrow> bool" where
  "random_ok r = (\<forall>i. 0 \<le> r i \<and> r i < 1)"

text \<open>A source of draws that always returns 0, so that every filler is \<open>chars[0]\<close>.\<close>

definition zero_draws :: "nat \<Rightarrow> nat \<Rightarrow> rat" where
  "zero_draws t i = 0"

text \<open>
  The getter on strings that rendering leaves as they are (no white space, no style
  that transforms text): it returns the string assigned.
\<close>

definition as_written :: "jsstring \<Rightarrow> jsstring" where
  "as_written s = s"

text \<open>
  What a tick writes at an index when neither lookup of the callback is \<open>undefined\<close>:
  the code unit of the target below \<open>iterations\<close>, a filler from there on.
\<close>

definition shown :: "jsstring \<Rightarrow> rat \<Rightarrow> (nat \<Rightarrow> rat) \<Rightarrow> nat \<Rightarrow> code_unit" where
  "shown originalText its r index =
     (if of_nat index < its then originalText ! index
      else chars ! nat \<lfloor>r index * 26\<rfloor>)"

text \<open>
  The reveal property of a displayed string at counter value \<open>k\<close>, in the words of the
  specification: below \<open>k\<close> the displayed unit is the unit of the target at that index
  (an index the target does not have compares \<open>undefined\<close>), from \<open>k\<close> on it is a
  filler.
\<close>

definition revealed_upto :: "jsstring \<Rightarrow> rat \<Rightarrow> jsstring \<Rightarrow> bool" where
  "revealed_upto originalText k text =
     list_all (\<lambda>i. if of_nat i < k then char_at text (int i) = char_at originalText (int i)
                    else text ! i \<in> set chars)
              [0..<length text]"

section \<open>DOM elements and handler results\<close>

text \<open>
  An element as far as app.js touches it: its tag name in lower case, which the selector
  of \<open>links\<close> tests, its class list (a \<open>DOMTokenList\<close>, an ordered set of
  tokens) and its inline style, a map from property names to the values assigned.
  Class names and CSS values of the source are ASCII literals and are modelled as
  \<open>string\<close>. A value is stored as assigned; the number \<open>0\<close> or \<open>1\<close> assigned to
  \<open>opacity\<close> is stored as its decimal string.
\<close>

record element =
  tag :: string
  classList :: "string list"
  style :: "string \<rightharpoonup> string"

definition classList_contains :: "string \<Rightarrow> element \<Rightarrow> bool" where
  "classList_contains c el = (c \<in> set (classList el))"

definition classList_add :: "string \<Rightarrow> element \<Rightarrow> element" where
  "classList_add c el =
     (if c \<in> set (classList el) then el else el\<lparr>classList := classList el @ [c]\<rparr>)"

definition classList_remove :: "string \<Rightarrow> element \<Rightarrow> element" where
  "classList_remove c el = el\<lparr>classList := removeAll c (classList el)\<rparr>"

definition classList_toggle :: "string \<Rightarrow> element \<Rightarrow> element" where
  "classList_toggle c el =
     (if c \<in> set (classList el) then classList_remove c el else classList_add c el)"

definition set_style :: "string \<Rightarrow> string \<Rightarrow> element \<Rightarrow> element" where
  "set_style prop v el = el\<lparr>style := (style el)(prop \<mapsto> v)\<rparr>"

text \<open>
  A handler either runs to its end or throws a \<open>TypeError\<close> when it dereferences
  \<open>null\<close> or \<open>undefined\<close>. The mutations made before the throw stay, so both
  outcomes carry a state.
\<close>

datatype 'a result = Ok 'a | TypeError 'a

definition and_then :: "'a result \<Rightarrow> ('a \<Rightarrow> 'a result) \<Rightarrow> 'a result" where
  "and_then r f = (case r of Ok s \<Rightarrow> f s | TypeError s \<Rightarrow> TypeError s)"

text \<open>
  \<open>n + 'px'\<close> converts the number to a string. Pointer coordinates are taken to be
  integers, whose conversion is the decimal numeral with a leading minus sign.
\<close>

fun nat_digits :: "nat \<Rightarrow> string" where
  "nat_digits n =
     (if n < 10 then [char_of (48 + n)]
      else nat_digits (n div 10) @ [char_of (48 + n mod 10)])"

declare nat_digits.simps [simp del]

definition number_string :: "int \<Rightarrow> string" where
  "number_string i = (if i < 0 then CHR ''-'' # nat_digits (nat (- i)) else nat_digits (nat i))"

section \<open>Custom cursor (app.js, lines 1-24)\<close>

text \<open>
  \<open>cursor\<close> and \<open>follower\<close> are the results of the two \<open>querySelector\<close> calls,
  \<open>None\<close> for \<open>null\<close>. \<open>timeouts\<close> is the list of pending \<open>setTimeout\<close> tasks of
  the mousemove handler, in the order in which they were scheduled: the time at which
  each is due (in ms) and the coordinates of the event its closure captured.
  \<open>hover_targets\<close> are the elements of the document, by position, that got the two
  hover listeners from \<open>links.forEach\<close>.
\<close>

record cursor_page =
  cursor :: "element option"
  follower :: "element option"
  timeouts :: "(nat \<times> int \<times> int) list"
  hover_targets :: "nat list"

text \<open>\<open>querySelectorAll('a, button, .menu-toggle')\<close> on the elements of the document.\<close>

definition is_link :: "element \<Rightarrow> bool" where
  "is_link el = (tag el = ''a'' \<or> tag el = ''button'' \<or> ''menu-toggle'' \<in> set (classList el))"

definition links_of :: "element list \<Rightarrow> nat list" where
  "links_of els = filter (\<lambda>i. is_link (els ! i)) [0..<length els]"

text \<open>The mousemove listener, run at time \<open>now\<close> for an event at \<open>(clientX, clientY)\<close>.\<close>

definition mousemove :: "nat \<Rightarrow> int \<Rightarrow> int \<Rightarrow> cursor_page \<Rightarrow> cursor_page result" where
  "mousemove now clientX clientY p =
     (case cursor p of
        None \<Rightarrow> TypeError p
      | Some c \<Rightarrow>
          Ok (p\<lparr> cursor := Some (set_style ''top'' (number_string clientY @ ''px'')
                                  (set_style ''left'' (number_string clientX @ ''px'') c)),
                 timeouts := timeouts p @ [(now + 50, clientX, clientY)] \<rparr>))"

text \<open>The callback passed to \<open>setTimeout\<close>, with the coordinates it captured.\<close>

definition follow :: "int \<Rightarrow> int \<Rightarrow> cursor_page \<Rightarrow> cursor_page result" where
  "follow clientX clientY p =
     (case follower p of
        None \<Rightarrow> TypeError p
      | Some f \<Rightarrow>
          Ok (p\<lparr> follower := Some (set_style ''top'' (number_string clientY @ ''px'')
                                    (set_style ''left'' (number_string clientX @ ''px'') f)) \<rparr>))"

text \<open>
  The state a handler leaves behind, whether it returned or threw: an exception in a
  listener or timer callback is reported and the page goes on.
\<close>

definition result_state :: "'a result \<Rightarrow> 'a" where
  "result_state r = (case r of Ok s \<Rightarrow> s | TypeError s \<Rightarrow> s)"

text \<open>
  The timers at time \<open>now\<close>: every pending task that is due is taken off the list and
  its callback run, each as a task of its own, oldest first. All delays are 50 ms, so
  the order of scheduling is the order in which tasks fall due. A task is never run
  before it is due.
\<close>

definition is_due :: "nat \<Rightarrow> nat \<times> int \<times> int \<Rightarrow> bool" where
  "is_due now task = (fst task \<le> now)"

definition fire :: "nat \<times> int \<times> int \<Rightarrow> cursor_page \<Rightarrow> cursor_page" where
  "fire task p = result_state (follow (fst (snd task)) (snd (snd task)) p)"

definition run_all_due :: "nat \<Rightarrow> cursor_page \<Rightarrow> cursor_page" where
  "run_all_due now p =
     fold fire (filter (is_due now) (timeouts p))
          (p\<lparr>timeouts := filter (\<lambda>task. \<not> is_due now task) (timeouts p)\<rparr>)"

text \<open>The listeners every element of \<open>links\<close> gets.\<close>

definition mouseenter :: "cursor_page \<Rightarrow> cursor_page result" where
  "mouseenter p =
     (case follower p of
        None \<Rightarrow> TypeError p
      | Some f \<Rightarrow> Ok (p\<lparr>follower := Some (classList_add ''cursor-hover'' f)\<rparr>))"

definition mouseleave :: "cursor_page \<Rightarrow> cursor_page result" where
  "mouseleave p =
     (case follower p of
        None \<Rightarrow> TypeError p
      | Some f \<Rightarrow> Ok (p\<lparr>follower := Some (classList_remove ''cursor-hover'' f)\<rparr>))"

text \<open>
  A \<open>mouseenter\<close> or \<open>mouseleave\<close> event on the element at position \<open>i\<close> of the
  document: these events do not bubble, so a listener runs only if that element has one.
\<close>

definition mouseenter_on :: "nat \<Rightarrow> cursor_page \<Rightarrow> cursor_page result" where
  "mouseenter_on i p = (if i \<in> set (hover_targets p) then mouseenter p else Ok p)"

definition mouseleave_on :: "nat \<Rightarrow> cursor_page \<Rightarrow> cursor_page result" where
  "mouseleave_on i p = (if i \<in> set (hover_targets p) then mouseleave p else Ok p)"

section \<open>Mobile menu (app.js, lines 26-53)\<close>

text \<open>
  \<open>navMenu\<close> is the result of \<open>querySelector('.nav-menu')\<close>; \<open>bars\<close> is what
  \<open>querySelectorAll('.bar')\<close> returns when a handler runs, in document order.
\<close>

record menu_page =
  navMenu :: "element option"
  bars :: "element list"

text \<open>\<open>bars[i].style.prop = v\<close>; \<open>bars[i]\<close> is \<open>undefined\<close> beyond the list.\<close>

definition set_bar :: "nat \<Rightarrow> string \<Rightarrow> string \<Rightarrow> menu_page \<Rightarrow> menu_page result" where
  "set_bar i prop v p =
     (if i < length (bars p) then Ok (p\<lparr>bars := (bars p)[i := set_style prop v (bars p ! i)]\<rparr>)
      else TypeError p)"

definition reset_bars :: "menu_page \<Rightarrow> menu_page result" where
  "reset_bars p =
     and_then (and_then (set_bar 0 ''transform'' ''rotate(0)'' p)
                        (set_bar 1 ''opacity'' ''1''))
              (set_bar 2 ''transform'' ''rotate(0)'')"

definition cross_bars :: "menu_page \<Rightarrow> menu_page result" where
  "cross_bars p =
     and_then (and_then (set_bar 0 ''transform'' ''rotate(-45deg) translate(-5px, 6px)'' p)
                        (set_bar 1 ''opacity'' ''0''))
              (set_bar 2 ''transform'' ''rotate(45deg) translate(-5px, -6px)'')"

definition menuToggle_click :: "menu_page \<Rightarrow> menu_page result" where
  "menuToggle_click p =
     (case navMenu p of
        None \<Rightarrow> TypeError p
      | Some nav \<Rightarrow>
          (let nav' = classList_toggle ''active'' nav;
               p' = p\<lparr>navMenu := Some nav'\<rparr>
           in if classList_contains ''active'' nav' then cross_bars p' else reset_bars p'))"

definition navLink_click :: "menu_page \<Rightarrow> menu_page result" where
  "navLink_click p =
     (case navMenu p of
        None \<Rightarrow> TypeError p
      | Some nav \<Rightarrow> reset_bars (p\<lparr>navMenu := Some (classList_remove ''active'' nav)\<rparr>))"

text \<open>A click on the toggle, or on the navigation link number \<open>n\<close>.\<close>

datatype menu_event = ToggleClick | NavLinkClick nat

fun menu_handle :: "menu_event \<Rightarrow> menu_page \<Rightarrow> menu_page result" where
  "menu_handle ToggleClick p = menuToggle_click p"
| "menu_handle (NavLinkClick n) p = navLink_click p"

text \<open>The two configurations of the icon, and the state of the panel.\<close>

definition menu_active :: "menu_page \<Rightarrow> bool" where
  "menu_active p = (case navMenu p of None \<Rightarrow> False | Some nav \<Rightarrow> classList_contains ''active'' nav)"

definition bars_crossed :: "menu_page \<Rightarrow> bool" where
  "bars_crossed p =
     (3 \<le> length (bars p) \<and>
      style (bars p ! 0) ''transform'' = Some ''rotate(-45deg) translate(-5px, 6px)'' \<and>
      style (bars p ! 1) ''opacity'' = Some ''0'' \<and>
      style (bars p ! 2) ''transform'' = Some ''rotate(45deg) translate(-5px, -6px)'')"

definition bars_reset :: "menu_page \<Rightarrow> bool" where
  "bars_reset p =
     (3 \<le> length (bars p) \<and>
      style (bars p ! 0) ''transform'' = Some ''rotate(0)'' \<and>
      style (bars p ! 1) ''opacity'' = Some ''1'' \<and>
      style (bars p ! 2) ''transform'' = Some ''rotate(0)'')"

section \<open>Particle field (app.js, lines 55-135)\<close>

text \<open>
  Coordinates, velocities and sizes are JavaScript numbers; they are modelled as real
  numbers, the operations of the source as the exact operations. The fields \<open>x\<close>,
  \<open>y\<close> and \<open>size\<close> of the class are named \<open>px\<close>, \<open>py\<close> and \<open>psize\<close> here.
\<close>

record particle =
  px :: real
  py :: real
  vx :: real
  vy :: real
  psize :: real

text \<open>
  The constructor draws five random numbers; \<open>rnd k\<close> is the \<open>k\<close>-th value
  \<open>Math.random()\<close> returns since the script started.
\<close>

definition new_Particle :: "real \<Rightarrow> real \<Rightarrow> (nat \<Rightarrow> real) \<Rightarrow> nat \<Rightarrow> particle" where
  "new_Particle width height rnd k =
     \<lparr> px = rnd k * width,
       py = rnd (k + 1) * height,
       vx = (rnd (k + 2) - 0.5) * 1,
       vy = (rnd (k + 3) - 0.5) * 1,
       psize = rnd (k + 4) * 2 + 1 \<rparr>"

definition update :: "real \<Rightarrow> real \<Rightarrow> particle \<Rightarrow> particle" where
  "update width height p =
     (let p1 = p\<lparr>px := px p + vx p\<rparr>;
          p2 = p1\<lparr>py := py p1 + vy p1\<rparr>;
          p3 = (if px p2 < 0 \<or> px p2 > width then p2\<lparr>vx := vx p2 * (- 1)\<rparr> else p2)
      in if py p3 < 0 \<or> py p3 > height then p3\<lparr>vy := vy p3 * (- 1)\<rparr> else p3)"

text \<open>
  The drawing context is write-only for app.js; a frame is modelled by the list of calls
  and assignments it makes on the context, in order. Both colours of the source are
  \<open>rgba(0, 229, 255, a)\<close> strings, kept as their four components.
\<close>

datatype colour = Rgba nat nat nat real

datatype canvas_op =
    ClearRect real real real real
  | FillStyle colour
  | StrokeStyle colour
  | LineWidth real
  | BeginPath
  | Arc real real real real real
  | Fill
  | MoveTo real real
  | LineTo real real
  | Stroke

definition draw :: "particle \<Rightarrow> canvas_op list" where
  "draw p = [FillStyle (Rgba 0 229 255 0.4), BeginPath, Arc (px p) (py p) (psize p) 0 (pi * 2), Fill]"

text \<open>The body of the inner loop of \<open>animate\<close> for one \<open>p2\<close> (lines 115-127).\<close>

definition connect :: "particle \<Rightarrow> particle \<Rightarrow> canvas_op list" where
  "connect p p2 =
     (let dx = px p - px p2;
          dy = py p - py p2;
          distance = sqrt (dx * dx + dy * dy)
      in if distance < 150
         then [StrokeStyle (Rgba 0 229 255 (1 - distance / 150)), LineWidth 0.5, BeginPath,
               MoveTo (px p) (py p), LineTo (px p2) (py p2), Stroke]
         else [])"

text \<open>\<open>for (let j = ...; j < particles.length; j++)\<close>.\<close>

function connect_loop :: "particle \<Rightarrow> particle list \<Rightarrow> nat \<Rightarrow> canvas_op list" where
  "connect_loop p particles j =
     (if j < length particles then connect p (particles ! j) @ connect_loop p particles (j + 1)
      else [])"
  by pat_completeness auto
termination
  by (relation "measure (\<lambda>(p, particles, j). length particles - j)") auto

declare connect_loop.simps [simp del]

text \<open>
  \<open>particles.forEach((p, index) => ...)\<close>: the particle at \<open>index\<close> is updated in
  place, drawn, and connected to the particles after it, which this frame has not
  updated yet.
\<close>

function forEach_particle ::
    "real \<Rightarrow> real \<Rightarrow> particle list \<Rightarrow> nat \<Rightarrow> particle list \<times> canvas_op list" where
  "forEach_particle width height particles index =
     (if index < length particles
      then (let p = update width height (particles ! index);
                particles' = particles[index := p];
                ops = draw p @ connect_loop p particles' (index + 1);
                (particles'', rest) = forEach_particle width height particles' (index + 1)
            in (particles'', ops @ rest))
      else (particles, []))"
  by pat_completeness auto
termination
  by (relation "measure (\<lambda>(width, height, particles, index). length particles - index)") auto

declare forEach_particle.simps [simp del]

text \<open>The script's global variables of this part.\<close>

record field =
  width :: real
  height :: real
  particles :: "particle list"

text \<open>
  \<open>resize\<close> reads the window's inner size, passed here as arguments. It also sizes
  the canvas, which no later statement reads.
\<close>

definition resize :: "real \<Rightarrow> real \<Rightarrow> field \<Rightarrow> field" where
  "resize innerWidth innerHeight f = f\<lparr>width := innerWidth, height := innerHeight\<rparr>"

function push_particles ::
    "real \<Rightarrow> real \<Rightarrow> (nat \<Rightarrow> real) \<Rightarrow> int \<Rightarrow> int \<Rightarrow> particle list \<Rightarrow> particle list" where
  "push_particles w h rnd particleCount i ps =
     (if i < particleCount
      then push_particles w h rnd particleCount (i + 1) (ps @ [new_Particle w h rnd (5 * length ps)])
      else ps)"
  by pat_completeness auto
termination
  by (relation "measure (\<lambda>(w, h, rnd, particleCount, i, ps). nat (particleCount - i))") auto

declare push_particles.simps [simp del]

definition initParticles :: "(nat \<Rightarrow> real) \<Rightarrow> field \<Rightarrow> field" where
  "initParticles rnd f =
     (let particleCount = min \<lfloor>width f / 10\<rfloor> 100
      in f\<lparr>particles := push_particles (width f) (height f) rnd particleCount 0 []\<rparr>)"

text \<open>
  One animation frame: the new state and the operations on the context. The call of
  \<open>requestAnimationFrame\<close> at the end asks for the next frame.
\<close>

definition animate :: "field \<Rightarrow> field \<times> canvas_op list" where
  "animate f =
     (let (ps, ops) = forEach_particle (width f) (height f) (particles f) 0
      in (f\<lparr>particles := ps\<rparr>, ClearRect 0 0 (width f) (height f) # ops))"

text \<open>What can happen to the field after initialisation.\<close>

datatype field_event = Frame | Resize real real

fun field_step :: "field_event \<Rightarrow> field \<Rightarrow> field" where
  "field_step Frame f = fst (animate f)"
| "field_step (Resize w h) f = resize w h f"

section \<open>Scroll reveal (app.js, lines 166-186)\<close>

text \<open>
  The document is the list of its elements in document order; an element is referred to
  by its position. \<open>observed\<close> lists the elements handed to \<open>observer.observe\<close>.
\<close>

record scroll_page =
  dom :: "element list"
  observed :: "nat list"

definition reveal_selector :: "string list" where
  "reveal_selector =
     [''section-title'', ''about-content'', ''skills-wrapper'', ''project-card'', ''contact-wrapper'']"

text \<open>A selector list of class selectors matches an element that has one of the classes.\<close>

definition matches_sel :: "string list \<Rightarrow> element \<Rightarrow> bool" where
  "matches_sel sel el = list_ex (\<lambda>c. c \<in> set (classList el)) sel"

definition querySelectorAll :: "string list \<Rightarrow> element list \<Rightarrow> nat list" where
  "querySelectorAll sel els = filter (\<lambda>i. matches_sel sel (els ! i)) [0..<length els]"

text \<open>The body of the final \<open>forEach\<close> (lines 182-185).\<close>

definition hide_and_observe :: "nat \<Rightarrow> scroll_page \<Rightarrow> scroll_page" where
  "hide_and_observe i p =
     p\<lparr> dom := (dom p)[i := set_style ''transition'' ''opacity 0.6s ease, transform 0.6s ease''
                              (set_style ''transform'' ''translateY(20px)''
                                (set_style ''opacity'' ''0'' (dom p ! i)))],
        observed := observed p @ [i] \<rparr>"

definition scroll_init :: "scroll_page \<Rightarrow> scroll_page" where
  "scroll_init p = fold hide_and_observe (querySelectorAll reveal_selector (dom p)) p"

text \<open>An \<open>IntersectionObserverEntry\<close>: the position of its target and \<open>isIntersecting\<close>.\<close>

record entry =
  target :: nat
  isIntersecting :: bool

definition reveal_entry :: "entry \<Rightarrow> scroll_page \<Rightarrow> scroll_page" where
  "reveal_entry e p =
     (if isIntersecting e
      then p\<lparr> dom := (dom p)[target e := set_style ''transform'' ''translateY(0)''
                                        (set_style ''opacity'' ''1''
                                          (classList_add ''visible'' (dom p ! target e)))] \<rparr>
      else p)"

text \<open>The callback the observer is created with, run on the entries of one notification.\<close>

definition observer_callback :: "entry list \<Rightarrow> scroll_page \<Rightarrow> scroll_page" where
  "observer_callback entries p = fold reveal_entry entries p"

section \<open>The top level of the script\<close>

text \<open>
  What the script finds when it runs: the result of each \<open>querySelector\<close> and
  \<open>getElementById\<close> call (\<open>None\<close> for \<open>null\<close>), the elements of the document in
  document order, the \<open>.bar\<close> elements, and the inner size of the window.

  The element with id \<open>neural-canvas\<close> has a method \<open>getContext\<close> only if it is a
  canvas, and \<open>getContext('2d')\<close> returns \<open>null\<close> on a canvas that cannot give a 2d
  context. Of the glitch element the script reads the text and the attribute
  \<open>data-text\<close>, \<open>null\<close> when the attribute is missing.
\<close>

record canvas_el =
  is_canvas :: bool
  gives_2d :: bool

record glitch_el =
  el_text :: jsstring
  data_text :: "jsstring option"

record page =
  cursor_q :: "element option"
  follower_q :: "element option"
  mobile_menu_q :: "element option"
  nav_menu_q :: "element option"
  neural_canvas_q :: "canvas_el option"
  glitch_effect_q :: "glitch_el option"
  all_nodes :: "element list"
  bar_els :: "element list"
  window_innerWidth :: real
  window_innerHeight :: real

text \<open>The listeners and timers the top level installs, in the order of the source.\<close>

datatype installed =
    MousemoveListener | LinkHoverListeners | MenuToggleListener | NavLinkListeners
  | ResizeListener | ParticleAnimation | GlitchInterval | GlitchHoverListener | ScrollObserver

text \<open>
  The global state of the script: the state of each of its five parts, the operations
  of the first frame, the value of \<open>originalText\<close>, and what has been installed.
\<close>

record script =
  cursor_st :: cursor_page
  menu_st :: menu_page
  field_st :: field
  frame_st :: "canvas_op list"
  originalText_st :: "jsstring option"
  glitch_st :: "glitch option"
  scroll_st :: scroll_page
  installed_st :: "installed list"


text \<open>
  The statements of the top level, part by part, in the order of the source. A statement
  that dereferences \<open>null\<close> or calls what is not a function throws; the script ends
  there, and what it did before stays. The browser's own functions are taken not to
  throw.

  Lines 2-24: three lookups, the mousemove listener on the document and the hover
  listeners on the links. Nothing is dereferenced outside the listeners.
\<close>

definition cursor_statements :: "page \<Rightarrow> script \<Rightarrow> script result" where
  "cursor_statements pg s =
     Ok (s\<lparr> cursor_st := \<lparr> cursor = cursor_q pg, follower = follower_q pg, timeouts = [],
                            hover_targets = links_of (all_nodes pg) \<rparr>,
            installed_st := installed_st s @ [MousemoveListener, LinkHoverListeners] \<rparr>)"







section \<open>Predicates and sample data of the statements\<close>

text \<open>
  Reading a CSS length in pixels: an optional minus sign, decimal digits, and the unit
  \<open>px\<close>. Anything else is not such a length.
\<close>

definition is_digit :: "char \<Rightarrow> bool" where
  "is_digit c = (48 \<le> (of_char c :: nat) \<and> (of_char c :: nat) \<le> 57)"

definition decimal_value :: "string \<Rightarrow> nat" where
  "decimal_value ds = foldl (\<lambda>a c. 10 * a + (of_char c - 48)) 0 ds"

definition digits_value :: "string \<Rightarrow> nat option" where
  "digits_value ds = (if ds \<noteq> [] \<and> list_all is_digit ds then Some (decimal_value ds) else None)"

definition integer_value :: "string \<Rightarrow> int option" where
  "integer_value s =
     (case s of
        [] \<Rightarrow> None
      | c # cs \<Rightarrow> if c = CHR ''-'' then map_option (\<lambda>n. - int n) (digits_value cs)
                  else map_option int (digits_value s))"

definition px_value :: "string \<Rightarrow> int option" where
  "px_value s =
     (if 2 \<le> length s \<and> drop (length s - 2) s = ''px''
      then integer_value (take (length s - 2) s) else None)"

text \<open>
  A marker is placed at a point when its \<open>left\<close> and \<open>top\<close> read as the two
  coordinates in pixels.
\<close>

definition placed_at :: "int \<Rightarrow> int \<Rightarrow> element option \<Rightarrow> bool" where
  "placed_at clientX clientY el =
     (case el of None \<Rightarrow> False
      | Some e \<Rightarrow> Option.bind (style e ''left'') px_value = Some clientX \<and>
                  Option.bind (style e ''top'') px_value = Some clientY)"

text \<open>The follower is in the hover state when it carries the class \<open>cursor-hover\<close>.\<close>

definition hovering :: "cursor_page \<Rightarrow> bool" where
  "hovering p = (case follower p of None \<Rightarrow> False | Some f \<Rightarrow> classList_contains ''cursor-hover'' f)"

text \<open>The two presentations of an observed section.\<close>

definition hidden :: "element \<Rightarrow> bool" where
  "hidden el = (style el ''opacity'' = Some ''0'' \<and> style el ''transform'' = Some ''translateY(20px)'')"

definition revealed :: "element \<Rightarrow> bool" where
  "revealed el = (classList_contains ''visible'' el \<and> style el ''opacity'' = Some ''1'' \<and>
                  style el ''transform'' = Some ''translateY(0)'')"

text \<open>
  The operations of one iteration of the \<open>forEach\<close> of \<open>animate\<close> on the particles
  as they were when the frame began: particle \<open>i\<close> is moved and drawn, and tested against
  every later particle at the position that one still has.
\<close>

definition frame_ops :: "real \<Rightarrow> real \<Rightarrow> particle list \<Rightarrow> nat \<Rightarrow> canvas_op list" where
  "frame_ops w h ps i =
     draw (update w h (ps ! i)) @
     concat (map (\<lambda>j. connect (update w h (ps ! i)) (ps ! j)) [i + 1..<length ps])"

text \<open>A source of random numbers that always returns one half.\<close>

definition half_draws :: "nat \<Rightarrow> real" where
  "half_draws k = 1 / 2"

text \<open>Sample elements and pages.\<close>

definition plain :: element where
  "plain = \<lparr> tag = ''div'', classList = [], style = Map.empty \<rparr>"

definition card_el :: element where
  "card_el = \<lparr> tag = ''div'', classList = [''project-card''], style = Map.empty \<rparr>"

definition anchor_el :: element where
  "anchor_el = \<lparr> tag = ''a'', classList = [''nav-link''], style = Map.empty \<rparr>"

definition button_el :: element where
  "button_el = \<lparr> tag = ''button'', classList = [], style = Map.empty \<rparr>"

definition toggle_el :: element where
  "toggle_el = \<lparr> tag = ''div'', classList = [''menu-toggle''], style = Map.empty \<rparr>"






text \<open>The value assigned to \<open>left\<close> and to \<open>top\<close> of a marker, if any.\<close>

definition left_of :: "element option \<Rightarrow> string option" where
  "left_of el = Option.bind el (\<lambda>e. style e ''left'')"

definition top_of :: "element option \<Rightarrow> string option" where
  "top_of el = Option.bind el (\<lambda>e. style e ''top'')"

text \<open>
  The cursor part after one mousemove at time 1000 at the point (120, 45), on a
  document whose first element is a link and whose second is not.
\<close>

definition moved_once :: cursor_page where
  "moved_once =
     \<lparr> cursor = Some (set_style ''top'' ''45px'' (set_style ''left'' ''120px'' plain)),
       follower = Some plain,
       timeouts = [(1050, 120, 45)],
       hover_targets = links_of [anchor_el, card_el, button_el, toggle_el] \<rparr>"



section \<open>Rounding of the glitch counter\<close>

lemma round_ties_even_bound: "\<bar>of_int (round_ties_even q) - q\<bar> \<le> 1 / 2"
proof -
  have "of_int \<lfloor>q\<rfloor> \<le> q" "q < of_int \<lfloor>q\<rfloor> + 1" by linarith+
  then show ?thesis
    by (auto simp: round_ties_even_def Let_def)
qed

lemma pow2_pos: "0 < pow2 e"
  by (simp add: pow2_def)

lemma pow2_powi: "pow2 e = 2 powi e"
  by (simp add: pow2_def power_int_def inverse_eq_divide power_one_over)

lemma pow2_mono: "a \<le> b \<Longrightarrow> pow2 a \<le> pow2 b"
  unfolding pow2_powi by (rule power_int_increasing) simp_all

lemma ilog2_le: assumes "0 < x" "x < 2 ^ 51" shows "ilog2 x \<le> 50"
proof (cases "1 \<le> x")
  case True
  then have pos: "0 < \<lfloor>x\<rfloor>" by linarith
  from bitlen_bounds[OF pos] have "2 ^ nat (bitlen \<lfloor>x\<rfloor> - 1) \<le> \<lfloor>x\<rfloor>" by simp
  moreover have "\<lfloor>x\<rfloor> < 2 ^ 51"
  proof -
    have "of_int \<lfloor>x\<rfloor> \<le> x" by simp
    with assms(2) have "(of_int \<lfloor>x\<rfloor> :: rat) < of_int (2 ^ 51)" by simp
    then show ?thesis by (simp only: of_int_less_iff)
  qed
  ultimately have lt: "(2::int) ^ nat (bitlen \<lfloor>x\<rfloor> - 1) < 2 ^ 51" by linarith
  have "nat (bitlen \<lfloor>x\<rfloor> - 1) < 51"
    by (rule power_less_imp_less_exp[OF _ lt]) simp
  then show ?thesis using True by (simp add: ilog2_def)
next
  case False
  then show ?thesis using bitlen_nonneg[of "\<lceil>1 / x\<rceil> - 1"] by (simp add: ilog2_def)
qed


lemma to_double_err:
  assumes "0 < x"
  shows "\<bar>to_double x - x\<bar> \<le> pow2 (ilog2 x - 52) / 2"
proof -
  define u where "u = pow2 (ilog2 x - 52)"
  have u: "0 < u" by (simp add: u_def pow2_pos)
  have td: "to_double x = of_int (round_ties_even (x / u)) * u"
    using assms by (simp add: to_double_def u_def Let_def)
  have "\<bar>of_int (round_ties_even (x / u)) - x / u\<bar> * u \<le> (1 / 2) * u"
    using round_ties_even_bound[of "x / u"] u by (intro mult_right_mono) simp_all
  moreover have "\<bar>of_int (round_ties_even (x / u)) - x / u\<bar> * u
                 = \<bar>of_int (round_ties_even (x / u)) * u - x\<bar>"
  proof -
    have "\<bar>of_int (round_ties_even (x / u)) - x / u\<bar> * u
          = \<bar>(of_int (round_ties_even (x / u)) - x / u) * u\<bar>"
      using u by (simp add: abs_mult)
    also have "(of_int (round_ties_even (x / u)) - x / u) * u
               = of_int (round_ties_even (x / u)) * u - x"
      using u by (simp add: left_diff_distrib)
    finally show ?thesis .
  qed
  ultimately show ?thesis by (simp add: td u_def)
qed

lemma third_val: "ddiv 1 3 = 6004799503160661 / 18014398509481984"
  by code_simp

lemma dadd_third_grows:
  assumes "0 \<le> x" "x < of_nat n" "n < 2 ^ 51"
  shows "x + 1 / 5 \<le> dadd x (ddiv 1 3)"
proof -
  let ?y = "x + ddiv 1 3"
  have ypos: "0 < ?y" using assms(1) by (simp add: third_val)
  have "of_nat n \<le> (2 ^ 51 - 1 :: rat)"
  proof -
    from assms(3) have "n \<le> 2 ^ 51 - 1" by simp
    then have "(of_nat n :: rat) \<le> of_nat (2 ^ 51 - 1)" by (simp only: of_nat_le_iff)
    then show ?thesis by simp
  qed
  with assms(2) have ylt: "?y < 2 ^ 51" by (simp add: third_val)
  have "ilog2 ?y - 52 \<le> - 2" using ilog2_le[OF ypos ylt] by simp
  then have "pow2 (ilog2 ?y - 52) \<le> pow2 (- 2)" by (rule pow2_mono)
  then have "pow2 (ilog2 ?y - 52) \<le> 1 / 4" by (simp add: pow2_def)
  with to_double_err[OF ypos] have "\<bar>to_double ?y - ?y\<bar> \<le> 1 / 8" by simp
  then have "?y - 1 / 8 \<le> to_double ?y" by linarith
  moreover have "x + 1 / 5 \<le> ?y - 1 / 8" by (simp add: third_val)
  ultimately show ?thesis unfolding dadd_def by linarith
qed

lemma length_chars: "length chars = 26"
  by (simp add: chars_def)

lemma join_empty_singletons:
  "(\<And>x. x \<in> set xs \<Longrightarrow> f x = Some [h x]) \<Longrightarrow> join_empty (map f xs) = map h xs"
  by (induction xs) (simp_all add: join_empty_def)

lemma filler_index:
  assumes "0 \<le> (q::rat)" "q < 1"
  shows "0 \<le> \<lfloor>q * 26\<rfloor>" "\<lfloor>q * 26\<rfloor> < 26"
proof -
  from assms(1) have "0 \<le> q * 26" by simp
  then show "0 \<le> \<lfloor>q * 26\<rfloor>" by simp
  from assms(2) have "q * 26 < 26" by simp
  then show "\<lfloor>q * 26\<rfloor> < 26" by (simp add: floor_less_iff)
qed

lemma glitch_letter_shown:
  assumes "random_ok r" "of_nat i < k \<longrightarrow> i < length orig"
  shows "glitch_letter orig k r i = Some [shown orig k r i]"
  using assms filler_index[of "r i"]
  by (auto simp: glitch_letter_def shown_def char_at_def length_chars random_ok_def)

lemma shown_filler:
  assumes "random_ok r" "\<not> of_nat i < k"
  shows "shown orig k r i \<in> set chars"
proof -
  from assms(1) have "0 \<le> r i" "r i < 1" by (simp_all add: random_ok_def)
  from filler_index[OF this] have "nat \<lfloor>r i * 26\<rfloor> < length chars"
    unfolding length_chars by linarith
  then show ?thesis using assms(2) by (simp add: shown_def)
qed

text \<open>The exponent function meets its specification, so \<open>to_double\<close> rounds to 53 bits.\<close>

lemma ilog2_bounds:
  assumes "0 < x"
  shows "pow2 (ilog2 x) \<le> x \<and> x < pow2 (ilog2 x + 1)"
proof (cases "1 \<le> x")
  case True
  let ?m = "\<lfloor>x\<rfloor>"
  from True have pos: "0 < ?m" by linarith
  from bitlen_bounds[OF pos] have lo: "2 ^ nat (bitlen ?m - 1) \<le> ?m" and hi: "?m < 2 ^ nat (bitlen ?m)"
    by simp_all
  have b1: "1 \<le> bitlen ?m" using pos by (simp add: bitlen_alt_def)
  have e: "ilog2 x = bitlen ?m - 1" using True by (simp add: ilog2_def)
  have "(of_int (2 ^ nat (bitlen ?m - 1)) :: rat) \<le> of_int ?m" using lo by (simp only: of_int_le_iff)
  also have "\<dots> \<le> x" by simp
  finally have l: "pow2 (ilog2 x) \<le> x" using b1 by (simp add: e pow2_def)
  from hi have "?m + 1 \<le> 2 ^ nat (bitlen ?m)" by simp
  then have "(of_int (?m + 1) :: rat) \<le> of_int (2 ^ nat (bitlen ?m))" by (simp only: of_int_le_iff)
  moreover have "x < of_int (?m + 1)" by simp linarith
  ultimately have "x < 2 ^ nat (bitlen ?m)" by simp
  then have "x < pow2 (ilog2 x + 1)" using b1 by (simp add: e pow2_def)
  with l show ?thesis ..
next
  case False
  let ?y = "1 / x"
  let ?m = "\<lceil>?y\<rceil> - 1"
  from False assms have y1: "1 < ?y" by simp
  then have pos: "0 < ?m" by linarith
  from bitlen_bounds[OF pos] have lo: "2 ^ nat (bitlen ?m - 1) \<le> ?m" and hi: "?m < 2 ^ nat (bitlen ?m)"
    by simp_all
  have b1: "1 \<le> bitlen ?m" using pos by (simp add: bitlen_alt_def)
  have e: "ilog2 x = - bitlen ?m" using False by (simp add: ilog2_def)
  have "?y \<le> of_int (?m + 1)" by simp
  also have "(of_int (?m + 1) :: rat) \<le> of_int (2 ^ nat (bitlen ?m))"
    using hi by (simp only: of_int_le_iff)
  finally have "?y \<le> 2 ^ nat (bitlen ?m)" by simp
  then have "1 / 2 ^ nat (bitlen ?m) \<le> x" using assms
    by (simp add: field_simps)
  then have l: "pow2 (ilog2 x) \<le> x" using b1 by (simp add: e pow2_def)
  have "(of_int (2 ^ nat (bitlen ?m - 1)) :: rat) \<le> of_int ?m" using lo by (simp only: of_int_le_iff)
  moreover have "of_int ?m < ?y" by linarith
  ultimately have "2 ^ nat (bitlen ?m - 1) < ?y" by simp
  then have "x < 1 / 2 ^ nat (bitlen ?m - 1)" using assms by (simp add: field_simps)
  moreover have "pow2 (ilog2 x + 1) = 1 / 2 ^ nat (bitlen ?m - 1)"
    using b1 by (auto simp: e pow2_def)
  ultimately have "x < pow2 (ilog2 x + 1)" by simp
  with l show ?thesis ..
qed




lemma tick_text:
  assumes "random_ok r"
    and "length (render (innerText g)) \<le> length orig \<or> iterations g \<le> of_nat (length orig)"
  shows "innerText (tick render orig r g)
         = map (shown orig (iterations g) r) [0..<length (render (innerText g))]"
proof -
  have "glitch_letter orig (iterations g) r i = Some [shown orig (iterations g) r i]"
    if "i \<in> set [0..<length (render (innerText g))]" for i
  proof (rule glitch_letter_shown[OF assms(1)], rule impI)
    assume lt: "of_nat i < iterations g"
    from that have iL: "i < length (render (innerText g))" by simp
    from assms(2) show "i < length orig"
    proof
      assume "length (render (innerText g)) \<le> length orig"
      with iL show ?thesis by simp
    next
      assume "iterations g \<le> of_nat (length orig)"
      with lt have "(of_nat i :: rat) < of_nat (length orig)" by simp
      then show ?thesis by (simp only: of_nat_less_iff)
    qed
  qed
  then have "join_empty (map (glitch_letter orig (iterations g) r) [0..<length (render (innerText g))])
             = map (shown orig (iterations g) r) [0..<length (render (innerText g))]"
    by (rule join_empty_singletons)
  then show ?thesis by (simp add: tick_def)
qed

lemma final_tick_text:
  assumes "of_nat (length orig) \<le> iterations g" "length (render (innerText g)) \<le> length orig"
  shows "innerText (tick render orig r g) = take (length (render (innerText g))) orig"
proof -
  let ?L = "length (render (innerText g))"
  have "glitch_letter orig (iterations g) r i = Some [orig ! i]" if "i \<in> set [0..<?L]" for i
  proof -
    from that assms(2) have iL: "i < length orig" by simp
    then have "(of_nat i :: rat) < of_nat (length orig)" by simp
    with assms(1) have "of_nat i < iterations g" by simp
    with iL show ?thesis by (simp add: glitch_letter_def char_at_def)
  qed
  then have "join_empty (map (glitch_letter orig (iterations g) r) [0..<?L]) = map ((!) orig) [0..<?L]"
    by (rule join_empty_singletons)
  moreover have "map ((!) orig) [0..<?L] = take ?L orig"
    using assms(2) by (intro nth_equalityI) simp_all
  ultimately show ?thesis by (simp add: tick_def)
qed

lemma round_ties_even_nonneg: "0 \<le> q \<Longrightarrow> 0 \<le> round_ties_even q"
proof -
  assume "0 \<le> q"
  then have "0 \<le> \<lfloor>q\<rfloor>" by simp
  then show ?thesis by (simp add: round_ties_even_def Let_def)
qed

lemma to_double_nonneg: "0 \<le> x \<Longrightarrow> 0 \<le> to_double x"
proof -
  assume x: "0 \<le> x"
  show ?thesis
  proof (cases "x = 0")
    case True
    then show ?thesis by (simp add: to_double_def)
  next
    case False
    with x have pos: "0 < x" by simp
    let ?u = "pow2 (ilog2 x - 52)"
    have u: "0 < ?u" by (rule pow2_pos)
    with pos have "0 \<le> x / ?u" by simp
    then have "0 \<le> round_ties_even (x / ?u)" by (rule round_ties_even_nonneg)
    then have "0 \<le> (of_int (round_ties_even (x / ?u)) :: rat) * ?u" using u by simp
    with pos show ?thesis by (simp add: to_double_def Let_def)
  qed
qed

lemma tick_iterations_nonneg: "0 \<le> iterations g \<Longrightarrow> 0 \<le> iterations (tick render orig r g)"
  using to_double_nonneg[of "iterations g + ddiv 1 3"]
  by (simp add: tick_def dadd_def third_val)

section \<open>Lemmas on the glitch run\<close>

lemma ticks_n_nonneg: "0 \<le> iterations (ticks_n render orig rs m (glitch_start text))"
  by (induction m) (simp_all add: glitch_start_def Let_def tick_iterations_nonneg)

lemma ticks_n_cleared_Suc:
  "cleared (ticks_n render orig rs m g) \<Longrightarrow> cleared (ticks_n render orig rs (Suc m) g)"
  by (simp add: Let_def)

lemma ticks_n_not_cleared_before:
  "m \<le> m' \<Longrightarrow> \<not> cleared (ticks_n render orig rs m' g) \<Longrightarrow> \<not> cleared (ticks_n render orig rs m g)"
proof (induction m' arbitrary: m)
  case 0
  then show ?case by simp
next
  case (Suc m')
  show ?case
  proof (cases "m = Suc m'")
    case True
    with Suc.prems show ?thesis by simp
  next
    case False
    with Suc.prems have "m \<le> m'" by simp
    moreover from Suc.prems(2) have "\<not> cleared (ticks_n render orig rs m' g)"
      using ticks_n_cleared_Suc by blast
    ultimately show ?thesis by (rule Suc.IH)
  qed
qed

lemma ticks_n_counter_grows:
  assumes "length orig < 2 ^ 51" "\<not> cleared (ticks_n render orig rs (Suc m) (glitch_start text))"
  shows "iterations (ticks_n render orig rs m (glitch_start text))
         < iterations (ticks_n render orig rs (Suc m) (glitch_start text))"
proof -
  let ?s = "ticks_n render orig rs m (glitch_start text)"
  from assms(2) have nc: "\<not> cleared ?s" using ticks_n_cleared_Suc by blast
  then have step: "ticks_n render orig rs (Suc m) (glitch_start text) = tick render orig (rs m) ?s"
    by (simp add: Let_def)
  with assms(2) have lt: "iterations ?s < of_nat (length orig)" by (simp add: tick_def)
  have "iterations ?s + 1 / 5 \<le> dadd (iterations ?s) (ddiv 1 3)"
    by (rule dadd_third_grows[OF ticks_n_nonneg lt assms(1)])
  then show ?thesis unfolding step by (simp add: tick_def)
qed

lemma ticks_n_counter_mono:
  assumes "length orig < 2 ^ 51"
  shows "m \<le> m' \<Longrightarrow> \<not> cleared (ticks_n render orig rs m' (glitch_start text)) \<Longrightarrow>
         iterations (ticks_n render orig rs m (glitch_start text))
         \<le> iterations (ticks_n render orig rs m' (glitch_start text))"
proof (induction m')
  case 0
  then show ?case by simp
next
  case (Suc m')
  show ?case
  proof (cases "m = Suc m'")
    case True
    then show ?thesis by simp
  next
    case False
    with Suc.prems have le: "m \<le> m'" by simp
    from Suc.prems(2) have nc: "\<not> cleared (ticks_n render orig rs m' (glitch_start text))"
      using ticks_n_cleared_Suc by blast
    from Suc.IH[OF le nc] ticks_n_counter_grows[OF assms Suc.prems(2)]
    show ?thesis by simp
  qed
qed

lemma ticks_n_length:
  assumes "\<forall>t. random_ok (rs t)" "length text \<le> length orig"
    and "\<forall>j<m. length (render (innerText (ticks_n render orig rs j (glitch_start text))))
               = length (innerText (ticks_n render orig rs j (glitch_start text)))"
  shows "length (innerText (ticks_n render orig rs m (glitch_start text))) = length text"
  using assms(3)
proof (induction m)
  case 0
  show ?case by (simp add: glitch_start_def)
next
  case (Suc m)
  let ?g = "ticks_n render orig rs m (glitch_start text)"
  from Suc.prems have pre: "\<forall>j<m. length (render (innerText (ticks_n render orig rs j (glitch_start text))))
               = length (innerText (ticks_n render orig rs j (glitch_start text)))" by simp
  from Suc.IH[OF pre] have len: "length (innerText ?g) = length text" .
  from Suc.prems have rd: "length (render (innerText ?g)) = length (innerText ?g)" by simp
  from assms(1) have "random_ok (rs m)" by simp
  from tick_text[OF this, of render ?g orig] rd len assms(2)
  have "length (innerText (tick render orig (rs m) ?g)) = length text" by simp
  with len show ?case by (simp add: Let_def)
qed

lemma glitch_run_ticks:
  assumes "length orig < 2 ^ 51"
    and "g = ticks_n render orig rs t g0" "\<not> cleared g" "0 \<le> iterations g"
  shows "\<exists>m. glitch_run render orig rs t g = Some (ticks_n render orig rs (Suc m) g0) \<and>
             \<not> cleared (ticks_n render orig rs m g0) \<and> cleared (ticks_n render orig rs (Suc m) g0)"
  using assms(2-4)
proof (induction "nat \<lceil>5 * (of_nat (length orig) - iterations g)\<rceil>" arbitrary: g t rule: less_induct)
  case less
  let ?g = "tick render orig (rs t) g"
  have next_state: "ticks_n render orig rs (Suc t) g0 = ?g"
    using less.prems(1,2) by (simp add: Let_def)
  show ?case
  proof (cases "of_nat (length orig) \<le> iterations g")
    case True
    then have cl: "cleared ?g" by (simp add: tick_def)
    then have run: "glitch_run render orig rs t g = Some ?g"
      by (subst glitch_run.simps) (simp add: Let_def)
    have "glitch_run render orig rs t g = Some (ticks_n render orig rs (Suc t) g0)"
      by (simp only: run next_state)
    moreover have "\<not> cleared (ticks_n render orig rs t g0)"
      using less.prems(1,2) by simp
    moreover have "cleared (ticks_n render orig rs (Suc t) g0)"
      using cl by (simp only: next_state)
    ultimately show ?thesis by blast
  next
    case False
    then have ncl: "\<not> cleared ?g" by (simp add: tick_def)
    then have run: "glitch_run render orig rs t g = glitch_run render orig rs (Suc t) ?g"
      by (subst glitch_run.simps) (simp add: Let_def)
    from False have lt: "iterations g < of_nat (length orig)" by simp
    have grow: "iterations g + 1 / 5 \<le> iterations ?g"
      using dadd_third_grows[OF less.prems(3) lt assms(1)] by (simp add: tick_def)
    have dec: "nat \<lceil>5 * (of_nat (length orig) - iterations ?g)\<rceil>
               < nat \<lceil>5 * (of_nat (length orig) - iterations g)\<rceil>"
    proof -
      let ?a = "5 * (of_nat (length orig) - iterations ?g)"
      let ?b = "5 * (of_nat (length orig) - iterations g)"
      from grow have "?a \<le> ?b - 1" by simp
      then have "\<lceil>?a\<rceil> \<le> \<lceil>?b - 1\<rceil>" by (rule ceiling_mono)
      then have "\<lceil>?a\<rceil> \<le> \<lceil>?b\<rceil> - 1" by simp
      moreover from lt have "0 < ?b" by simp
      then have "0 < \<lceil>?b\<rceil>" by (simp add: less_ceiling_iff)
      ultimately show ?thesis by linarith
    qed
    have nn: "0 \<le> iterations ?g" using grow less.prems(3) by linarith
    from less.hyps[OF dec next_state[symmetric] ncl nn] run show ?thesis by simp
  qed
qed

lemma startGlitch_ticks:
  assumes "length orig < 2 ^ 51"
  shows "\<exists>m. startGlitch render orig rs text
               = Some (ticks_n render orig rs (Suc m) (glitch_start text)) \<and>
             \<not> cleared (ticks_n render orig rs m (glitch_start text)) \<and>
             cleared (ticks_n render orig rs (Suc m) (glitch_start text))"
  unfolding startGlitch_def
  by (rule glitch_run_ticks[OF assms]) (simp_all add: glitch_start_def)

lemma last_tick_text:
  assumes "\<not> cleared (ticks_n render orig rs m g0)" "cleared (ticks_n render orig rs (Suc m) g0)"
    and "length (render (innerText (ticks_n render orig rs m g0))) \<le> length orig"
  shows "innerText (ticks_n render orig rs (Suc m) g0)
         = take (length (render (innerText (ticks_n render orig rs m g0)))) orig"
proof -
  let ?s = "ticks_n render orig rs m g0"
  from assms(1) have step: "ticks_n render orig rs (Suc m) g0 = tick render orig (rs m) ?s"
    by (simp add: Let_def)
  with assms(2) have k: "of_nat (length orig) \<le> iterations ?s" by (simp add: tick_def)
  have "innerText (tick render orig (rs m) ?s) = take (length (render (innerText ?s))) orig"
    using k assms(3) by (rule final_tick_text)
  then show ?thesis by (simp only: step)
qed

text \<open>
  The values of the counter in a run: after six additions of the double nearest to
  \<open>1/3\<close> it is the double just below 2, after seven it is above 2.
\<close>

lemma counter_step_1: "dadd (0) (ddiv 1 3) = 6004799503160661 / 18014398509481984"
  by code_simp

lemma counter_step_2: "dadd (6004799503160661 / 18014398509481984) (ddiv 1 3) = 6004799503160661 / 9007199254740992"
  by code_simp

lemma counter_step_3: "dadd (6004799503160661 / 9007199254740992) (ddiv 1 3) = 1"
  by code_simp

lemma counter_step_4: "dadd (1) (ddiv 1 3) = 6004799503160661 / 4503599627370496"
  by code_simp

lemma counter_step_5: "dadd (6004799503160661 / 4503599627370496) (ddiv 1 3) = 3752999689475413 / 2251799813685248"
  by code_simp

lemma counter_step_6: "dadd (3752999689475413 / 2251799813685248) (ddiv 1 3) = 9007199254740991 / 4503599627370496"
  by code_simp

lemma counter_step_7: "dadd (9007199254740991 / 4503599627370496) (ddiv 1 3) = 2627099782632789 / 1125899906842624"
  by code_simp


text \<open>
  The run on an element whose text is \<open>abcd\<close> with the target \<open>ab\<close>, every
  filler being \<open>chars[0]\<close> and the getter returning the text as written, tick by tick.
\<close>

lemma ticks_n_next:
  "ticks_n render orig rs m g = s \<Longrightarrow> \<not> cleared s \<Longrightarrow> tick render orig (rs m) s = s'
     \<Longrightarrow> ticks_n render orig rs (Suc m) g = s'"
  by simp

lemma abcd_tick_1:
  "tick as_written [0x61, 0x62] (zero_draws 0) \<lparr> innerText = [0x61, 0x62, 0x63, 0x64], iterations = 0, cleared = False \<rparr>
     = \<lparr> innerText = [0x21, 0x21, 0x21, 0x21], iterations = 6004799503160661 / 18014398509481984, cleared = False \<rparr>"
  by code_simp

lemma abcd_tick_2:
  "tick as_written [0x61, 0x62] (zero_draws 1) \<lparr> innerText = [0x21, 0x21, 0x21, 0x21], iterations = 6004799503160661 / 18014398509481984, cleared = False \<rparr>
     = \<lparr> innerText = [0x61, 0x21, 0x21, 0x21], iterations = 6004799503160661 / 9007199254740992, cleared = False \<rparr>"
  by code_simp

lemma abcd_tick_3:
  "tick as_written [0x61, 0x62] (zero_draws 2) \<lparr> innerText = [0x61, 0x21, 0x21, 0x21], iterations = 6004799503160661 / 9007199254740992, cleared = False \<rparr>
     = \<lparr> innerText = [0x61, 0x21, 0x21, 0x21], iterations = 1, cleared = False \<rparr>"
  by code_simp

lemma abcd_tick_4:
  "tick as_written [0x61, 0x62] (zero_draws 3) \<lparr> innerText = [0x61, 0x21, 0x21, 0x21], iterations = 1, cleared = False \<rparr>
     = \<lparr> innerText = [0x61, 0x21, 0x21, 0x21], iterations = 6004799503160661 / 4503599627370496, cleared = False \<rparr>"
  by code_simp

lemma abcd_tick_5:
  "tick as_written [0x61, 0x62] (zero_draws 4) \<lparr> innerText = [0x61, 0x21, 0x21, 0x21], iterations = 6004799503160661 / 4503599627370496, cleared = False \<rparr>
     = \<lparr> innerText = [0x61, 0x62, 0x21, 0x21], iterations = 3752999689475413 / 2251799813685248, cleared = False \<rparr>"
  by code_simp

lemma abcd_tick_6:
  "tick as_written [0x61, 0x62] (zero_draws 5) \<lparr> innerText = [0x61, 0x62, 0x21, 0x21], iterations = 3752999689475413 / 2251799813685248, cleared = False \<rparr>
     = \<lparr> innerText = [0x61, 0x62, 0x21, 0x21], iterations = 9007199254740991 / 4503599627370496, cleared = False \<rparr>"
  by code_simp

lemma abcd_tick_7:
  "tick as_written [0x61, 0x62] (zero_draws 6) \<lparr> innerText = [0x61, 0x62, 0x21, 0x21], iterations = 9007199254740991 / 4503599627370496, cleared = False \<rparr>
     = \<lparr> innerText = [0x61, 0x62, 0x21, 0x21], iterations = 2627099782632789 / 1125899906842624, cleared = False \<rparr>"
  by code_simp

lemma abcd_tick_8:
  "tick as_written [0x61, 0x62] (zero_draws 7) \<lparr> innerText = [0x61, 0x62, 0x21, 0x21], iterations = 2627099782632789 / 1125899906842624, cleared = False \<rparr>
     = \<lparr> innerText = [0x61, 0x62, 0x21], iterations = 6004799503160661 / 2251799813685248, cleared = True \<rparr>"
  by code_simp

lemma abcd_run_0:
  "ticks_n as_written [0x61, 0x62] zero_draws 0 (glitch_start [0x61, 0x62, 0x63, 0x64])
     = \<lparr> innerText = [0x61, 0x62, 0x63, 0x64], iterations = 0, cleared = False \<rparr>"
  by (simp add: glitch_start_def)

lemma abcd_run_1:
  "ticks_n as_written [0x61, 0x62] zero_draws 1 (glitch_start [0x61, 0x62, 0x63, 0x64])
     = \<lparr> innerText = [0x21, 0x21, 0x21, 0x21], iterations = 6004799503160661 / 18014398509481984, cleared = False \<rparr>"
proof -
  have "ticks_n as_written [0x61, 0x62] zero_draws (Suc 0) (glitch_start [0x61, 0x62, 0x63, 0x64])
     = \<lparr> innerText = [0x21, 0x21, 0x21, 0x21], iterations = 6004799503160661 / 18014398509481984, cleared = False \<rparr>"
    by (rule ticks_n_next[OF abcd_run_0 _ abcd_tick_1]) simp
  then show ?thesis by simp
qed

lemma abcd_run_2:
  "ticks_n as_written [0x61, 0x62] zero_draws 2 (glitch_start [0x61, 0x62, 0x63, 0x64])
     = \<lparr> innerText = [0x61, 0x21, 0x21, 0x21], iterations = 6004799503160661 / 9007199254740992, cleared = False \<rparr>"
proof -
  have "ticks_n as_written [0x61, 0x62] zero_draws (Suc 1) (glitch_start [0x61, 0x62, 0x63, 0x64])
     = \<lparr> innerText = [0x61, 0x21, 0x21, 0x21], iterations = 6004799503160661 / 9007199254740992, cleared = False \<rparr>"
    by (rule ticks_n_next[OF abcd_run_1 _ abcd_tick_2]) simp
  then show ?thesis by (simp del: ticks_n.simps add: numeral_2_eq_2)
qed

lemma abcd_run_3:
  "ticks_n as_written [0x61, 0x62] zero_draws 3 (glitch_start [0x61, 0x62, 0x63, 0x64])
     = \<lparr> innerText = [0x61, 0x21, 0x21, 0x21], iterations = 1, cleared = False \<rparr>"
proof -
  have "ticks_n as_written [0x61, 0x62] zero_draws (Suc 2) (glitch_start [0x61, 0x62, 0x63, 0x64])
     = \<lparr> innerText = [0x61, 0x21, 0x21, 0x21], iterations = 1, cleared = False \<rparr>"
    by (rule ticks_n_next[OF abcd_run_2 _ abcd_tick_3]) simp
  then show ?thesis by simp
qed

lemma abcd_run_4:
  "ticks_n as_written [0x61, 0x62] zero_draws 4 (glitch_start [0x61, 0x62, 0x63, 0x64])
     = \<lparr> innerText = [0x61, 0x21, 0x21, 0x21], iterations = 6004799503160661 / 4503599627370496, cleared = False \<rparr>"
proof -
  have "ticks_n as_written [0x61, 0x62] zero_draws (Suc 3) (glitch_start [0x61, 0x62, 0x63, 0x64])
     = \<lparr> innerText = [0x61, 0x21, 0x21, 0x21], iterations = 6004799503160661 / 4503599627370496, cleared = False \<rparr>"
    by (rule ticks_n_next[OF abcd_run_3 _ abcd_tick_4]) simp
  then show ?thesis by simp
qed

lemma abcd_run_5:
  "ticks_n as_written [0x61, 0x62] zero_draws 5 (glitch_start [0x61, 0x62, 0x63, 0x64])
     = \<lparr> innerText = [0x61, 0x62, 0x21, 0x21], iterations = 3752999689475413 / 2251799813685248, cleared = False \<rparr>"
proof -
  have "ticks_n as_written [0x61, 0x62] zero_draws (Suc 4) (glitch_start [0x61, 0x62, 0x63, 0x64])
     = \<lparr> innerText = [0x61, 0x62, 0x21, 0x21], iterations = 3752999689475413 / 2251799813685248, cleared = False \<rparr>"
    by (rule ticks_n_next[OF abcd_run_4 _ abcd_tick_5]) simp
  then show ?thesis by simp
qed

lemma abcd_run_6:
  "ticks_n as_written [0x61, 0x62] zero_draws 6 (glitch_start [0x61, 0x62, 0x63, 0x64])
     = \<lparr> innerText = [0x61, 0x62, 0x21, 0x21], iterations = 9007199254740991 / 4503599627370496, cleared = False \<rparr>"
proof -
  have "ticks_n as_written [0x61, 0x62] zero_draws (Suc 5) (glitch_start [0x61, 0x62, 0x63, 0x64])
     = \<lparr> innerText = [0x61, 0x62, 0x21, 0x21], iterations = 9007199254740991 / 4503599627370496, cleared = False \<rparr>"
    by (rule ticks_n_next[OF abcd_run_5 _ abcd_tick_6]) simp
  then show ?thesis by simp
qed

lemma abcd_run_7:
  "ticks_n as_written [0x61, 0x62] zero_draws 7 (glitch_start [0x61, 0x62, 0x63, 0x64])
     = \<lparr> innerText = [0x61, 0x62, 0x21, 0x21], iterations = 2627099782632789 / 1125899906842624, cleared = False \<rparr>"
proof -
  have "ticks_n as_written [0x61, 0x62] zero_draws (Suc 6) (glitch_start [0x61, 0x62, 0x63, 0x64])
     = \<lparr> innerText = [0x61, 0x62, 0x21, 0x21], iterations = 2627099782632789 / 1125899906842624, cleared = False \<rparr>"
    by (rule ticks_n_next[OF abcd_run_6 _ abcd_tick_7]) simp
  then show ?thesis by simp
qed

lemma abcd_run_8:
  "ticks_n as_written [0x61, 0x62] zero_draws 8 (glitch_start [0x61, 0x62, 0x63, 0x64])
     = \<lparr> innerText = [0x61, 0x62, 0x21], iterations = 6004799503160661 / 2251799813685248, cleared = True \<rparr>"
proof -
  have "ticks_n as_written [0x61, 0x62] zero_draws (Suc 7) (glitch_start [0x61, 0x62, 0x63, 0x64])
     = \<lparr> innerText = [0x61, 0x62, 0x21], iterations = 6004799503160661 / 2251799813685248, cleared = True \<rparr>"
    by (rule ticks_n_next[OF abcd_run_7 _ abcd_tick_8]) simp
  then show ?thesis by simp
qed


lemma startGlitch_final_text:
  assumes "length orig < 2 ^ 51" "\<forall>t. random_ok (rs t)" "length text \<le> length orig"
    and "\<forall>j. length (render (innerText (ticks_n render orig rs j (glitch_start text))))
             = length (innerText (ticks_n render orig rs j (glitch_start text)))"
  shows "\<exists>g. startGlitch render orig rs text = Some g \<and> cleared g \<and>
             innerText g = take (length text) orig"
proof -
  from startGlitch_ticks[OF assms(1)] obtain m where
    run: "startGlitch render orig rs text = Some (ticks_n render orig rs (Suc m) (glitch_start text))"
    and nc: "\<not> cleared (ticks_n render orig rs m (glitch_start text))"
    and cl: "cleared (ticks_n render orig rs (Suc m) (glitch_start text))" by blast
  let ?s = "ticks_n render orig rs m (glitch_start text)"
  have len: "length (innerText ?s) = length text"
    using assms(2,3) assms(4) by (intro ticks_n_length) simp_all
  with assms(4) have rd: "length (render (innerText ?s)) = length text" by simp
  with assms(3) have "length (render (innerText ?s)) \<le> length orig" by simp
  from last_tick_text[OF nc cl this] rd
  have "innerText (ticks_n render orig rs (Suc m) (glitch_start text)) = take (length text) orig"
    by simp
  with run cl show ?thesis by blast
qed

lemma tick_revealed:
  assumes "random_ok r"
    and "length (render (innerText g)) \<le> length orig \<or> iterations g \<le> of_nat (length orig)"
  shows "revealed_upto orig (iterations g) (innerText (tick render orig r g))"
proof -
  let ?k = "iterations g" and ?L = "length (render (innerText g))"
  have eq: "innerText (tick render orig r g) = map (shown orig ?k r) [0..<?L]"
    using assms by (rule tick_text)
  have *: "if of_nat i < ?k
        then char_at (map (shown orig ?k r) [0..<?L]) (int i) = char_at orig (int i)
        else map (shown orig ?k r) [0..<?L] ! i \<in> set chars" if iL: "i < ?L" for i
  proof (cases "of_nat i < ?k")
    case True
    from assms(2) have "i < length orig"
    proof
      assume "?L \<le> length orig" with iL show ?thesis by simp
    next
      assume "?k \<le> of_nat (length orig)"
      with True have "(of_nat i :: rat) < of_nat (length orig)" by simp
      then show ?thesis by (simp only: of_nat_less_iff)
    qed
    with True iL show ?thesis by (simp add: char_at_def shown_def)
  next
    case False
    with shown_filler[OF assms(1) False, of orig] iL show ?thesis by simp
  qed
  show ?thesis
    unfolding revealed_upto_def list_all_iff eq
  proof
    fix i assume "i \<in> set [0..<length (map (shown orig ?k r) [0..<?L])]"
    then have "i < ?L" by simp
    then show "if of_nat i < ?k
        then char_at (map (shown orig ?k r) [0..<?L]) (int i) = char_at orig (int i)
        else map (shown orig ?k r) [0..<?L] ! i \<in> set chars" by (rule *)
  qed
qed

lemma revealed_uptoD:
  "revealed_upto orig k text \<Longrightarrow> i < length text \<Longrightarrow> of_nat i < k
     \<Longrightarrow> char_at text (int i) = char_at orig (int i)"
  by (auto simp: revealed_upto_def list_all_iff split: if_splits)


section \<open>Lemmas on the menu\<close>

lemma reset_bars_ok:
  assumes "3 \<le> length (bars p)"
  shows "\<exists>p'. reset_bars p = Ok p' \<and> navMenu p' = navMenu p \<and> length (bars p') = length (bars p)
              \<and> bars_reset p' \<and> \<not> bars_crossed p'"
  using assms
  by (auto simp: reset_bars_def and_then_def set_bar_def bars_reset_def bars_crossed_def set_style_def)

lemma cross_bars_ok:
  assumes "3 \<le> length (bars p)"
  shows "\<exists>p'. cross_bars p = Ok p' \<and> navMenu p' = navMenu p \<and> length (bars p') = length (bars p)
              \<and> bars_crossed p'"
  using assms
  by (auto simp: cross_bars_def and_then_def set_bar_def bars_crossed_def set_style_def)

lemma remove_not_contains: "\<not> classList_contains c (classList_remove c el)"
  by (simp add: classList_contains_def classList_remove_def)


section \<open>Lemmas on the scroll reveal\<close>

lemma hide_length: "length (dom (hide_and_observe i p)) = length (dom p)"
  by (simp add: hide_and_observe_def)

lemma fold_hide_length: "length (dom (fold hide_and_observe js p)) = length (dom p)"
  by (induction js arbitrary: p) (simp_all add: hide_length)

lemma hide_nth:
  "i < length (dom p) \<Longrightarrow>
     (j = i \<longrightarrow> hidden (dom (hide_and_observe j p) ! i)) \<and>
     (j \<noteq> i \<longrightarrow> dom (hide_and_observe j p) ! i = dom p ! i)"
  by (simp add: hide_and_observe_def hidden_def set_style_def)

lemma hide_observed: "set (observed (hide_and_observe j p)) = insert j (set (observed p))"
  by (simp add: hide_and_observe_def)

lemma fold_hide:
  assumes "i \<in> set js" "i < length (dom p)"
  shows "hidden (dom (fold hide_and_observe js p) ! i) \<and> i \<in> set (observed (fold hide_and_observe js p))"
  using assms(1)
proof (induction js rule: rev_induct)
  case Nil
  then show ?case by simp
next
  case (snoc j js)
  let ?q = "fold hide_and_observe js p"
  have len: "i < length (dom ?q)" using assms(2) by (simp add: fold_hide_length)
  show ?case
  proof (cases "j = i")
    case True
    with hide_nth[OF len, of j] show ?thesis by (simp add: hide_observed)
  next
    case False
    with snoc have "hidden (dom ?q ! i) \<and> i \<in> set (observed ?q)" by simp
    with False hide_nth[OF len, of j] show ?thesis by (simp add: hide_observed)
  qed
qed

lemma reveal_length: "length (dom (reveal_entry e p)) = length (dom p)"
  by (simp add: reveal_entry_def)

lemma fold_reveal_length: "length (dom (fold reveal_entry es p)) = length (dom p)"
  by (induction es arbitrary: p) (simp_all add: reveal_length)

lemma revealed_set: "revealed (set_style ''transform'' ''translateY(0)''
                        (set_style ''opacity'' ''1'' (classList_add ''visible'' el)))"
  by (simp add: revealed_def set_style_def classList_add_def classList_contains_def)

lemma reveal_nth:
  "i < length (dom p) \<Longrightarrow>
     (isIntersecting e \<and> target e = i \<longrightarrow> revealed (dom (reveal_entry e p) ! i)) \<and>
     (\<not> (isIntersecting e \<and> target e = i) \<longrightarrow> dom (reveal_entry e p) ! i = dom p ! i)"
  by (auto simp: reveal_entry_def revealed_set)

lemma fold_reveal:
  assumes "e \<in> set es" "isIntersecting e" "target e < length (dom p)"
  shows "revealed (dom (fold reveal_entry es p) ! target e)"
  using assms(1)
proof (induction es rule: rev_induct)
  case Nil
  then show ?case by simp
next
  case (snoc x es)
  let ?q = "fold reveal_entry es p"
  have len: "target e < length (dom ?q)" using assms(3) by (simp add: fold_reveal_length)
  show ?case
  proof (cases "isIntersecting x \<and> target x = target e")
    case True
    with reveal_nth[OF len, of x] show ?thesis by simp
  next
    case False
    with assms(2) have "x \<noteq> e" by auto
    with snoc have "revealed (dom ?q ! target e)" by simp
    with False reveal_nth[OF len, of x] show ?thesis by simp
  qed
qed


section \<open>Lemmas on the particle field\<close>

lemma push_particles_length:
  "length (push_particles w h rnd c i ps) = length ps + nat (c - i)"
proof (induction w h rnd c i ps rule: push_particles.induct)
  case (1 w h rnd c i ps)
  show ?case
  proof (cases "i < c")
    case True
    with 1 show ?thesis by (subst push_particles.simps) simp
  next
    case False
    then show ?thesis by (subst push_particles.simps) simp
  qed
qed

lemma forEach_particle_length:
  "length (fst (forEach_particle w h ps k)) = length ps"
proof (induction w h ps k rule: forEach_particle.induct)
  case (1 w h ps k)
  show ?case
  proof (cases "k < length ps")
    case True
    with 1 show ?thesis
      by (subst forEach_particle.simps) (simp add: Let_def case_prod_beta)
  next
    case False
    then show ?thesis by (subst forEach_particle.simps) simp
  qed
qed

lemma connect_loop_eq:
  "connect_loop p ps j = concat (map (\<lambda>i. connect p (ps ! i)) [j..<length ps])"
proof (induction p ps j rule: connect_loop.induct)
  case (1 p ps j)
  show ?case
  proof (cases "j < length ps")
    case True
    with 1 show ?thesis
      by (subst connect_loop.simps) (simp add: upt_conv_Cons)
  next
    case False
    then show ?thesis by (subst connect_loop.simps) simp
  qed
qed

lemma forEach_particle_ops:
  "snd (forEach_particle w h ps k) = concat (map (frame_ops w h ps) [k..<length ps])"
proof (induction w h ps k rule: forEach_particle.induct)
  case (1 w h ps k)
  show ?case
  proof (cases "k < length ps")
    case True
    let ?p = "update w h (ps ! k)"
    let ?ps = "ps[k := ?p]"
    have ih: "snd (forEach_particle w h ?ps (k + 1)) = concat (map (frame_ops w h ?ps) [k + 1..<length ?ps])"
      using 1[OF True refl refl refl] .
    have later: "concat (map (\<lambda>j. connect q (?ps ! j)) [Suc i..<length ps])
                 = concat (map (\<lambda>j. connect q (ps ! j)) [Suc i..<length ps])" if "k \<le> i" for i q
      using that by (intro arg_cong[where f = concat] map_cong refl) simp
    have same: "frame_ops w h ?ps i = frame_ops w h ps i" if "i \<in> set [k + 1..<length ?ps]" for i
    proof -
      from that have "k \<le> i" "i \<noteq> k" by simp_all
      with later[of i "update w h (ps ! i)"] show ?thesis by (simp add: frame_ops_def)
    qed
    have here: "draw ?p @ connect_loop ?p ?ps (k + 1) = frame_ops w h ps k"
      using later[of k ?p] by (simp add: connect_loop_eq frame_ops_def)
    have "snd (forEach_particle w h ps k) = (draw ?p @ connect_loop ?p ?ps (k + 1)) @ snd (forEach_particle w h ?ps (k + 1))"
      using True by (subst forEach_particle.simps) (simp add: Let_def case_prod_beta)
    also have "\<dots> = frame_ops w h ps k @ concat (map (frame_ops w h ps) [k + 1..<length ps])"
    proof -
      have "map (frame_ops w h ?ps) [k + 1..<length ?ps] = map (frame_ops w h ps) [k + 1..<length ?ps]"
        by (rule map_cong[OF refl]) (rule same)
      then show ?thesis by (simp only: here ih) simp
    qed
    finally show ?thesis using True by (simp add: upt_conv_Cons)
  next
    case False
    then show ?thesis by (subst forEach_particle.simps) simp
  qed
qed

lemma sqrt25: "sqrt 25 = 5"
  using real_sqrt_abs[of 5] by simp


section \<open>Lemmas on the cursor\<close>

lemma is_digit_char_of: "(n::nat) < 10 \<Longrightarrow> is_digit (char_of (48 + n))"
  by (simp add: is_digit_def)

lemma decimal_value_snoc:
  "decimal_value (ds @ [c]) = 10 * decimal_value ds + (of_char c - 48)"
  by (simp add: decimal_value_def)

lemma nat_digits_value:
  "nat_digits n \<noteq> [] \<and> list_all is_digit (nat_digits n) \<and> decimal_value (nat_digits n) = n"
proof (induction n rule: nat_digits.induct)
  case (1 n)
  show ?case
  proof (cases "n < 10")
    case True
    then show ?thesis
      by (subst (1 2 3) nat_digits.simps) (simp add: is_digit_def decimal_value_def)
  next
    case False
    have m: "n mod 10 < 10" by simp
    from False 1 have ih: "nat_digits (n div 10) \<noteq> []" "list_all is_digit (nat_digits (n div 10))"
      "decimal_value (nat_digits (n div 10)) = n div 10" by simp_all
    have eq: "nat_digits n = nat_digits (n div 10) @ [char_of (48 + n mod 10)]"
      using False by (subst nat_digits.simps) simp
    have "(of_char (char_of (48 + n mod 10 :: nat)) :: nat) = 48 + n mod 10"
      using m by simp
    with ih is_digit_char_of[OF m] show ?thesis
      by (simp add: eq decimal_value_snoc)
  qed
qed

lemma digits_value_nat_digits: "digits_value (nat_digits n) = Some n"
  using nat_digits_value[of n] by (simp add: digits_value_def)

lemma not_digit_minus: "\<not> is_digit CHR ''-''"
  by (simp add: is_digit_def)

lemma integer_value_number_string: "integer_value (number_string i) = Some i"
proof (cases "i < 0")
  case True
  then show ?thesis
    by (simp add: number_string_def integer_value_def digits_value_nat_digits)
next
  case False
  obtain c cs where cs: "nat_digits (nat i) = c # cs"
    using nat_digits_value[of "nat i"] by (cases "nat_digits (nat i)") auto
  with nat_digits_value[of "nat i"] have "is_digit c" by simp
  with not_digit_minus have "c \<noteq> CHR ''-''" by auto
  with False cs digits_value_nat_digits[of "nat i"] show ?thesis
    by (simp add: number_string_def integer_value_def)
qed

lemma px_value_number_string: "px_value (number_string i @ ''px'') = Some i"
  by (simp add: px_value_def integer_value_number_string)

lemma placed_at_set:
  "placed_at x y (Some (set_style ''top'' (number_string y @ ''px'')
                          (set_style ''left'' (number_string x @ ''px'') e)))"
  by (simp add: placed_at_def set_style_def px_value_number_string)

lemma fire_follower:
  assumes "follower q = Some g"
  shows "placed_at (fst (snd task)) (snd (snd task)) (follower (fire task q)) \<and>
         follower (fire task q) \<noteq> None \<and> cursor (fire task q) = cursor q \<and>
         timeouts (fire task q) = timeouts q \<and> hover_targets (fire task q) = hover_targets q"
  using assms by (simp add: fire_def follow_def result_state_def placed_at_set)

lemma fold_fire_keeps:
  assumes "follower q \<noteq> None"
  shows "follower (fold fire ds q) \<noteq> None \<and> cursor (fold fire ds q) = cursor q \<and>
         timeouts (fold fire ds q) = timeouts q"
  using assms
proof (induction ds arbitrary: q)
  case Nil
  then show ?case by simp
next
  case (Cons d ds)
  from Cons.prems obtain g where g: "follower q = Some g" by auto
  from fire_follower[OF g, of d] Cons.IH[of "fire d q"] show ?case by simp
qed

lemma fold_fire_last:
  assumes "follower q \<noteq> None" "ds \<noteq> []"
  shows "placed_at (fst (snd (last ds))) (snd (snd (last ds))) (follower (fold fire ds q))"
proof -
  from assms(2) obtain ds' d where ds: "ds = ds' @ [d]"
    by (metis append_butlast_last_id)
  from fold_fire_keeps[OF assms(1), of ds'] obtain g where "follower (fold fire ds' q) = Some g"
    by auto
  from fire_follower[OF this, of d] show ?thesis by (simp add: ds)
qed

lemma run_all_due_none:
  "filter (is_due t) (timeouts q) = [] \<Longrightarrow> run_all_due t q = q"
proof -
  assume a: "filter (is_due t) (timeouts q) = []"
  then have "filter (\<lambda>task. \<not> is_due t task) (timeouts q) = timeouts q"
    by (induction "timeouts q") (auto simp: filter_empty_conv filter_id_conv)
  with a show ?thesis by (simp add: run_all_due_def)
qed

lemma run_all_due_props:
  assumes "follower q \<noteq> None"
  shows "timeouts (run_all_due t q) = filter (\<lambda>task. \<not> is_due t task) (timeouts q) \<and>
         cursor (run_all_due t q) = cursor q \<and> follower (run_all_due t q) \<noteq> None \<and>
         (filter (is_due t) (timeouts q) \<noteq> [] \<longrightarrow>
            placed_at (fst (snd (last (filter (is_due t) (timeouts q)))))
                      (snd (snd (last (filter (is_due t) (timeouts q)))))
                      (follower (run_all_due t q)))"
proof -
  let ?q = "q\<lparr>timeouts := filter (\<lambda>task. \<not> is_due t task) (timeouts q)\<rparr>"
  have f: "follower ?q \<noteq> None" using assms by simp
  from fold_fire_keeps[OF f, of "filter (is_due t) (timeouts q)"]
       fold_fire_last[OF f, of "filter (is_due t) (timeouts q)"]
  show ?thesis by (simp add: run_all_due_def)
qed

lemma hover_on_link:
  assumes "follower p = Some f" "i \<in> set (hover_targets p)"
  shows "(\<exists>q. mouseenter_on i p = Ok q \<and> hovering q \<and> cursor q = cursor p \<and> timeouts q = timeouts p)
       \<and> (\<exists>q. mouseleave_on i p = Ok q \<and> \<not> hovering q \<and> cursor q = cursor p \<and> timeouts q = timeouts p)"
  using assms
  by (auto simp: mouseenter_on_def mouseleave_on_def mouseenter_def mouseleave_def hovering_def
      classList_contains_def classList_add_def classList_remove_def)

lemma links_of_iff: "i \<in> set (links_of els) \<longleftrightarrow> i < length els \<and> is_link (els ! i)"
  by (auto simp: links_of_def)

lemma number_string_samples:
  "number_string 120 = ''120''" "number_string 45 = ''45''"
  "number_string 130 = ''130''" "number_string 50 = ''50''" "number_string (- 7) = ''-7''"
  by code_simp+


section \<open>Lemmas on the top level\<close>



section \<open>The claims\<close>

subsection \<open>Glitch effect\<close>

text \<open>
  C1, as stated, fails: a run started on an element whose text is \<open>ab\<close> with the target
  \<open>abc\<close> ends with \<open>ab\<close> assigned, because a tick rewrites the positions of the text
  it reads and never adds one. (The strings of this run have no white space, so the
  getter returns them as written.)
\<close>

theorem startGlitch_counterexample:
  "map_option innerText (startGlitch as_written [0x61, 0x62, 0x63] zero_draws [0x61, 0x62])
     = Some [0x61, 0x62]
   \<and> [0x61, 0x62] \<noteq> [0x61, 0x62, 0x63 :: code_unit]"
proof -
  have ok: "\<forall>t. random_ok (zero_draws t)"
    by (simp add: random_ok_def zero_draws_def)
  have "\<exists>g. startGlitch as_written [0x61, 0x62, 0x63] zero_draws [0x61, 0x62] = Some g \<and> cleared g \<and>
             innerText g = take (length [0x61, 0x62 :: code_unit]) [0x61, 0x62, 0x63]"
    by (rule startGlitch_final_text) (simp_all add: ok as_written_def)
  then show ?thesis by auto
qed

text \<open>
  C1 (amended): for every target of fewer than \<open>2^51\<close> code units a run of
  \<open>startGlitch\<close> terminates: the interval is cleared at some tick, the last of the
  run. The string that tick assigns is the target cut to the length of the string it read
  from \<open>innerText\<close>, when that is not longer than the target. What it read is the
  rendered text of the string assigned by the tick before, which can be shorter than
  that string; if the getter returns every string of the run with the length it was
  assigned, and the text of the element at the start is not longer than the target, the
  final string is the target cut to the length of the initial text, and so the target
  itself when both lengths are equal.
\<close>

theorem startGlitch_terminates:
  assumes "length originalText < 2 ^ 51"
  shows "\<exists>m. startGlitch render originalText rs text
               = Some (ticks_n render originalText rs (Suc m) (glitch_start text)) \<and>
             \<not> cleared (ticks_n render originalText rs m (glitch_start text)) \<and>
             cleared (ticks_n render originalText rs (Suc m) (glitch_start text)) \<and>
             (length (render (innerText (ticks_n render originalText rs m (glitch_start text))))
                \<le> length originalText \<longrightarrow>
              innerText (ticks_n render originalText rs (Suc m) (glitch_start text))
                = take (length (render (innerText (ticks_n render originalText rs m (glitch_start text)))))
                       originalText) \<and>
             ((\<forall>t. random_ok (rs t)) \<longrightarrow> length text \<le> length originalText \<longrightarrow>
              (\<forall>j. length (render (innerText (ticks_n render originalText rs j (glitch_start text))))
                   = length (innerText (ticks_n render originalText rs j (glitch_start text)))) \<longrightarrow>
              innerText (ticks_n render originalText rs (Suc m) (glitch_start text))
                = take (length text) originalText)"
proof -
  from startGlitch_ticks[OF assms] obtain m where
    run: "startGlitch render originalText rs text
            = Some (ticks_n render originalText rs (Suc m) (glitch_start text))"
    and nc: "\<not> cleared (ticks_n render originalText rs m (glitch_start text))"
    and cl: "cleared (ticks_n render originalText rs (Suc m) (glitch_start text))" by blast
  let ?s = "ticks_n render originalText rs m (glitch_start text)"
  let ?s' = "ticks_n render originalText rs (Suc m) (glitch_start text)"
  have a: "length (render (innerText ?s)) \<le> length originalText \<longrightarrow>
           innerText ?s' = take (length (render (innerText ?s))) originalText"
    using last_tick_text[OF nc cl] by blast
  have b: "innerText ?s' = take (length text) originalText"
    if ok: "\<forall>t. random_ok (rs t)" and le: "length text \<le> length originalText"
      and rd: "\<forall>j. length (render (innerText (ticks_n render originalText rs j (glitch_start text))))
                   = length (innerText (ticks_n render originalText rs j (glitch_start text)))"
  proof -
    have "length (innerText ?s) = length text"
      using ok le rd by (intro ticks_n_length) simp_all
    with rd have eq: "length (render (innerText ?s)) = length text" by simp
    with le a show ?thesis by simp
  qed
  from run nc cl a b show ?thesis by blast
qed

theorem startGlitch_terminates_witness:
  "length [0x61, 0x62 :: code_unit] < 2 ^ 51 \<and> (\<forall>t. random_ok (zero_draws t)) \<and>
   length [0x61, 0x62 :: code_unit] \<le> length [0x61, 0x62 :: code_unit] \<and>
   (\<forall>j. length (as_written (innerText (ticks_n as_written [0x61, 0x62] zero_draws j (glitch_start [0x61, 0x62]))))
        = length (innerText (ticks_n as_written [0x61, 0x62] zero_draws j (glitch_start [0x61, 0x62])))) \<and>
   map_option innerText (startGlitch as_written [0x61, 0x62] zero_draws [0x61, 0x62]) = Some [0x61, 0x62]"
proof -
  have ok: "\<forall>t. random_ok (zero_draws t)"
    by (simp add: random_ok_def zero_draws_def)
  from startGlitch_terminates[of "[0x61, 0x62]" as_written zero_draws "[0x61, 0x62]"] ok
  show ?thesis by (auto simp: as_written_def)
qed

text \<open>
  C5, as stated, fails at a tick a run reaches: with the target \<open>ab\<close> and the text
  \<open>abcd\<close>, the counter is \<open>2 - 2^-52\<close> at the seventh tick, so the interval is not
  cleared, and about \<open>2.33\<close> at the eighth. There index 2 is below the counter, the
  target has no unit at index 2, \<open>join\<close> drops the \<open>undefined\<close>, and the unit
  displayed at index 2 is the filler written for index 3.
\<close>

theorem tick_reveals_counterexample:
  "\<not> cleared (ticks_n as_written [0x61, 0x62] zero_draws 7 (glitch_start [0x61, 0x62, 0x63, 0x64])) \<and>
   \<not> revealed_upto [0x61, 0x62]
        (iterations (ticks_n as_written [0x61, 0x62] zero_draws 7 (glitch_start [0x61, 0x62, 0x63, 0x64])))
        (innerText (ticks_n as_written [0x61, 0x62] zero_draws 8 (glitch_start [0x61, 0x62, 0x63, 0x64])))"
  by (simp add: abcd_run_7 abcd_run_8 revealed_upto_def char_at_def upt_conv_Cons)

text \<open>
  C5 (amended), for targets of fewer than \<open>2^51\<close> units. At every tick at which the
  string read from \<open>innerText\<close> is not longer than the target, or the value \<open>k\<close> of
  \<open>iterations\<close> does not exceed the length of the target, every unit of the string the
  tick assigns at an index below \<open>k\<close> is the unit of the target at that index and every
  unit at an index from \<open>k\<close> on is a filler; and a tick that starts below the length of
  the target increases the counter. Within a run the counter never decreases from one
  tick to a later one, so what a tick has revealed stays revealed: every index below the
  counter of an earlier tick holds the unit of the target after any later tick of the
  run that meets the condition above, as far as the assigned string reaches.
\<close>

theorem tick_reveals:
  assumes "\<forall>t. random_ok (rs t)" "length originalText < 2 ^ 51"
  shows "(length (render (innerText g)) \<le> length originalText \<or>
          iterations g \<le> of_nat (length originalText) \<longrightarrow>
            revealed_upto originalText (iterations g) (innerText (tick render originalText (rs t) g)))
       \<and> (0 \<le> iterations g \<longrightarrow> iterations g < of_nat (length originalText) \<longrightarrow>
            iterations g < iterations (tick render originalText (rs t) g))
       \<and> (m \<le> m' \<longrightarrow> \<not> cleared (ticks_n render originalText rs m' (glitch_start text)) \<longrightarrow>
            iterations (ticks_n render originalText rs m (glitch_start text))
              \<le> iterations (ticks_n render originalText rs m' (glitch_start text)) \<and>
            (length (render (innerText (ticks_n render originalText rs m' (glitch_start text))))
               \<le> length originalText \<or>
             iterations (ticks_n render originalText rs m' (glitch_start text))
               \<le> of_nat (length originalText) \<longrightarrow>
             (\<forall>i < length (innerText (ticks_n render originalText rs (Suc m') (glitch_start text))).
                of_nat i < iterations (ticks_n render originalText rs m (glitch_start text)) \<longrightarrow>
                char_at (innerText (ticks_n render originalText rs (Suc m') (glitch_start text))) (int i)
                  = char_at originalText (int i))))"
proof (intro conjI impI allI)
  assume "length (render (innerText g)) \<le> length originalText \<or>
          iterations g \<le> of_nat (length originalText)"
  with assms(1) show "revealed_upto originalText (iterations g) (innerText (tick render originalText (rs t) g))"
    by (intro tick_revealed) simp_all
next
  assume "0 \<le> iterations g" "iterations g < of_nat (length originalText)"
  from dadd_third_grows[OF this assms(2)]
  show "iterations g < iterations (tick render originalText (rs t) g)"
    by (simp add: tick_def)
next
  assume "m \<le> m'" "\<not> cleared (ticks_n render originalText rs m' (glitch_start text))"
  then show "iterations (ticks_n render originalText rs m (glitch_start text))
              \<le> iterations (ticks_n render originalText rs m' (glitch_start text))"
    by (rule ticks_n_counter_mono[OF assms(2)])
next
  fix i
  let ?s = "ticks_n render originalText rs m (glitch_start text)"
  let ?s' = "ticks_n render originalText rs m' (glitch_start text)"
  let ?n = "ticks_n render originalText rs (Suc m') (glitch_start text)"
  assume le: "m \<le> m'" and nc: "\<not> cleared ?s'"
    and cond: "length (render (innerText ?s')) \<le> length originalText \<or>
               iterations ?s' \<le> of_nat (length originalText)"
    and i: "i < length (innerText ?n)" and below: "of_nat i < iterations ?s"
  from nc have step: "?n = tick render originalText (rs m') ?s'" by (simp add: Let_def)
  from assms(1) have "random_ok (rs m')" by simp
  then have "revealed_upto originalText (iterations ?s')
               (innerText (tick render originalText (rs m') ?s'))"
    using cond by (rule tick_revealed)
  then have rev: "revealed_upto originalText (iterations ?s') (innerText ?n)" by (simp only: step)
  from ticks_n_counter_mono[OF assms(2) le nc] below have "of_nat i < iterations ?s'" by simp
  from revealed_uptoD[OF rev i this]
  show "char_at (innerText ?n) (int i) = char_at originalText (int i)" .
qed

theorem tick_reveals_witness:
  "(\<forall>t. random_ok (zero_draws t)) \<and> length [0x61, 0x62 :: code_unit] < 2 ^ 51 \<and>
   iterations \<lparr> innerText = [0x61, 0x21, 0x21, 0x21],
                iterations = 6004799503160661 / 4503599627370496, cleared = False \<rparr>
     \<le> of_nat (length [0x61, 0x62 :: code_unit]) \<and>
   innerText (tick as_written [0x61, 0x62] (zero_draws 4)
                \<lparr> innerText = [0x61, 0x21, 0x21, 0x21],
                  iterations = 6004799503160661 / 4503599627370496, cleared = False \<rparr>)
     = [0x61, 0x62, 0x21, 0x21] \<and>
   revealed_upto [0x61, 0x62] (6004799503160661 / 4503599627370496) [0x61, 0x62, 0x21, 0x21] \<and>
   (6004799503160661 / 4503599627370496 :: rat)
     < iterations (tick as_written [0x61, 0x62] (zero_draws 4)
                \<lparr> innerText = [0x61, 0x21, 0x21, 0x21],
                  iterations = 6004799503160661 / 4503599627370496, cleared = False \<rparr>) \<and>
   (4 :: nat) \<le> 6 \<and>
   \<not> cleared (ticks_n as_written [0x61, 0x62] zero_draws 6 (glitch_start [0x61, 0x62, 0x63, 0x64])) \<and>
   iterations (ticks_n as_written [0x61, 0x62] zero_draws 4 (glitch_start [0x61, 0x62, 0x63, 0x64]))
     \<le> iterations (ticks_n as_written [0x61, 0x62] zero_draws 6 (glitch_start [0x61, 0x62, 0x63, 0x64])) \<and>
   iterations (ticks_n as_written [0x61, 0x62] zero_draws 6 (glitch_start [0x61, 0x62, 0x63, 0x64]))
     \<le> of_nat (length [0x61, 0x62 :: code_unit]) \<and>
   innerText (ticks_n as_written [0x61, 0x62] zero_draws 7 (glitch_start [0x61, 0x62, 0x63, 0x64]))
     = [0x61, 0x62, 0x21, 0x21] \<and>
   (0 :: rat) < 6004799503160661 / 4503599627370496 \<and>
   char_at [0x61, 0x62, 0x21, 0x21] 0 = char_at [0x61, 0x62] 0 \<and>
   (1 :: rat) < 6004799503160661 / 4503599627370496 \<and>
   char_at [0x61, 0x62, 0x21, 0x21] 1 = char_at [0x61, 0x62] 1"
proof -
  have ok: "\<forall>t. random_ok (zero_draws t)"
    by (simp add: random_ok_def zero_draws_def)
  have n: "length [0x61, 0x62 :: code_unit] < 2 ^ 51" by simp
  note th = tick_reveals[OF ok n, of as_written
      "\<lparr> innerText = [0x61, 0x21, 0x21, 0x21],
         iterations = 6004799503160661 / 4503599627370496, cleared = False \<rparr>"
      4 4 6 "[0x61, 0x62, 0x63, 0x64]"]
  from th have main:
    "revealed_upto [0x61, 0x62] (6004799503160661 / 4503599627370496) [0x61, 0x62, 0x21, 0x21]"
    "(6004799503160661 / 4503599627370496 :: rat)
       < iterations (tick as_written [0x61, 0x62] (zero_draws 4)
                \<lparr> innerText = [0x61, 0x21, 0x21, 0x21],
                  iterations = 6004799503160661 / 4503599627370496, cleared = False \<rparr>)"
    "iterations (ticks_n as_written [0x61, 0x62] zero_draws 4 (glitch_start [0x61, 0x62, 0x63, 0x64]))
       \<le> iterations (ticks_n as_written [0x61, 0x62] zero_draws 6 (glitch_start [0x61, 0x62, 0x63, 0x64]))"
    and later: "\<forall>i < 4. of_nat i < (6004799503160661 / 4503599627370496 :: rat) \<longrightarrow>
        char_at [0x61, 0x62, 0x21, 0x21] (int i) = char_at [0x61, 0x62] (int i)"
    by (simp_all del: ticks_n.simps add: abcd_tick_5 abcd_run_4 abcd_run_6 abcd_run_7)
  from later[rule_format, of 0] later[rule_format, of 1]
  have idx: "char_at [0x61, 0x62, 0x21, 0x21] 0 = char_at [0x61, 0x62] 0"
    "char_at [0x61, 0x62, 0x21, 0x21] 1 = char_at [0x61, 0x62] 1"
    by simp_all
  from main idx ok show ?thesis
    by (simp del: ticks_n.simps add: abcd_tick_5 abcd_run_4 abcd_run_6 abcd_run_7)
qed

text \<open>
  C9, as stated, fails: with the target \<open>ab\<close> and the text \<open>abcd\<close> the eighth tick
  of a run, whose counter is above 2, turns a displayed string of four units into one of
  three.
\<close>

theorem tick_length_counterexample:
  "\<not> cleared (ticks_n as_written [0x61, 0x62] zero_draws 7 (glitch_start [0x61, 0x62, 0x63, 0x64])) \<and>
   length (innerText (ticks_n as_written [0x61, 0x62] zero_draws 7 (glitch_start [0x61, 0x62, 0x63, 0x64]))) = 4 \<and>
   length (innerText (ticks_n as_written [0x61, 0x62] zero_draws 8 (glitch_start [0x61, 0x62, 0x63, 0x64]))) = 3"
  by (simp add: abcd_run_7 abcd_run_8)

text \<open>
  C9 (amended): a tick at which the string read from \<open>innerText\<close> is not longer than
  the target, or the value of \<open>iterations\<close> does not exceed the length of the target,
  assigns a string of exactly the length of the string it read. The string read is the
  rendered text, which can be shorter than the string assigned before; as long as the
  getter returns each string of a run with the length it was assigned, and the initial
  text is not longer than the target, the assigned string keeps the length of the
  initial text.
\<close>

theorem tick_preserves_length:
  assumes "\<forall>t. random_ok (rs t)"
  shows "(length (render (innerText g)) \<le> length originalText \<or>
          iterations g \<le> of_nat (length originalText)
            \<longrightarrow> length (innerText (tick render originalText (rs t) g))
                 = length (render (innerText g)))
         \<and> (length text \<le> length originalText \<longrightarrow>
            (\<forall>j<m. length (render (innerText (ticks_n render originalText rs j (glitch_start text))))
                    = length (innerText (ticks_n render originalText rs j (glitch_start text)))) \<longrightarrow>
            length (innerText (ticks_n render originalText rs m (glitch_start text))) = length text)"
proof (intro conjI impI)
  assume a: "length (render (innerText g)) \<le> length originalText \<or>
             iterations g \<le> of_nat (length originalText)"
  from assms have "random_ok (rs t)" by simp
  then have "innerText (tick render originalText (rs t) g)
             = map (shown originalText (iterations g) (rs t)) [0..<length (render (innerText g))]"
    using a by (rule tick_text)
  then show "length (innerText (tick render originalText (rs t) g)) = length (render (innerText g))"
    by simp
next
  assume "length text \<le> length originalText"
    and "\<forall>j<m. length (render (innerText (ticks_n render originalText rs j (glitch_start text))))
                = length (innerText (ticks_n render originalText rs j (glitch_start text)))"
  with assms show "length (innerText (ticks_n render originalText rs m (glitch_start text))) = length text"
    by (rule ticks_n_length)
qed

theorem tick_preserves_length_witness:
  "(\<forall>t. random_ok (zero_draws t)) \<and>
   iterations \<lparr> innerText = [0x61, 0x21, 0x21, 0x21],
                iterations = 6004799503160661 / 4503599627370496, cleared = False \<rparr>
     \<le> of_nat (length [0x61, 0x62 :: code_unit]) \<and>
   length (innerText (tick as_written [0x61, 0x62] (zero_draws 4)
                \<lparr> innerText = [0x61, 0x21, 0x21, 0x21],
                  iterations = 6004799503160661 / 4503599627370496, cleared = False \<rparr>)) = 4 \<and>
   length [0x61, 0x62 :: code_unit] \<le> length [0x61, 0x62, 0x63 :: code_unit] \<and>
   (\<forall>j. length (as_written (innerText (ticks_n as_written [0x61, 0x62, 0x63] zero_draws j
                                            (glitch_start [0x61, 0x62]))))
           = length (innerText (ticks_n as_written [0x61, 0x62, 0x63] zero_draws j
                                  (glitch_start [0x61, 0x62])))) \<and>
   length (innerText (ticks_n as_written [0x61, 0x62, 0x63] zero_draws 9 (glitch_start [0x61, 0x62]))) = 2"
proof -
  have ok: "\<forall>t. random_ok (zero_draws t)"
    by (simp add: random_ok_def zero_draws_def)
  note th = tick_preserves_length[OF ok, of as_written
      "\<lparr> innerText = [0x61, 0x21, 0x21, 0x21],
         iterations = 6004799503160661 / 4503599627370496, cleared = False \<rparr>"
      "[0x61, 0x62]" 4]
  note th2 = tick_preserves_length[OF ok, of as_written g "[0x61, 0x62, 0x63]" t "[0x61, 0x62]" 9]
  from th th2 ok show ?thesis
    by (simp del: ticks_n.simps add: as_written_def)
qed

subsection \<open>Particle field\<close>

text \<open>
  C2: immediately after \<open>initParticles\<close> the number of particles is
  \<open>min(floor(width / 10), 100)\<close>, hence at most 100, the width of a window being
  non-negative; and neither an animation frame nor a resize changes the number of
  particles.
\<close>

theorem particles_bounded:
  assumes "0 \<le> width f"
  shows "int (length (particles (initParticles rnd f))) = min \<lfloor>width f / 10\<rfloor> 100 \<and>
         length (particles (initParticles rnd f)) \<le> 100 \<and>
         length (particles (field_step ev g)) = length (particles g)"
proof -
  have "0 \<le> \<lfloor>width f / 10\<rfloor>" using assms by simp
  then have a: "int (length (particles (initParticles rnd f))) = min \<lfloor>width f / 10\<rfloor> 100"
    by (simp add: initParticles_def Let_def push_particles_length)
  then have b: "length (particles (initParticles rnd f)) \<le> 100" by linarith
  have c: "length (particles (field_step ev g)) = length (particles g)"
  proof (cases ev)
    case Frame
    have "length (fst (forEach_particle (width g) (height g) (particles g) 0)) = length (particles g)"
      by (rule forEach_particle_length)
    with Frame show ?thesis by (simp add: animate_def case_prod_beta)
  next
    case (Resize w h)
    then show ?thesis by (simp add: resize_def)
  qed
  from a b c show ?thesis by simp
qed

theorem particles_bounded_witness:
  "0 \<le> width \<lparr> width = 35, height = 20, particles = [] \<rparr> \<and>
   int (length (particles (initParticles half_draws \<lparr> width = 35, height = 20, particles = [] \<rparr>))) = 3 \<and>
   length (particles (field_step Frame
             (initParticles half_draws \<lparr> width = 35, height = 20, particles = [] \<rparr>))) = 3"
proof -
  let ?f = "\<lparr> width = 35, height = 20, particles = [] \<rparr>"
  have "\<lfloor>35 / 10 :: real\<rfloor> = 3" by simp
  with particles_bounded[of ?f half_draws Frame "initParticles half_draws ?f"] show ?thesis by simp
qed

text \<open>
  C3: the operations of a frame are the clearing of the canvas followed, for each
  particle in turn, by its drawing and by one test against each later particle, so every
  unordered pair of distinct particles is tested exactly once; the test draws a line
  between the two exactly when \<open>sqrt(dx*dx + dy*dy) < 150\<close>, with stroke alpha
  \<open>1 - distance/150\<close>. The distance is taken where the source takes it: the first
  particle of the pair has moved in this frame, the second has not yet.
\<close>

theorem animate_connections:
  "snd (animate f) =
     ClearRect 0 0 (width f) (height f) #
     concat (map (\<lambda>i. draw (update (width f) (height f) (particles f ! i)) @
                       concat (map (\<lambda>j. connect (update (width f) (height f) (particles f ! i))
                                                (particles f ! j))
                                   [i + 1..<length (particles f)]))
                 [0..<length (particles f)])
   \<and> (connect p p2 \<noteq> [] \<longleftrightarrow>
        sqrt ((px p - px p2) * (px p - px p2) + (py p - py p2) * (py p - py p2)) < 150)
   \<and> (sqrt ((px p - px p2) * (px p - px p2) + (py p - py p2) * (py p - py p2)) < 150 \<longrightarrow>
        connect p p2 =
          [StrokeStyle (Rgba 0 229 255
             (1 - sqrt ((px p - px p2) * (px p - px p2) + (py p - py p2) * (py p - py p2)) / 150)),
           LineWidth 0.5, BeginPath, MoveTo (px p) (py p), LineTo (px p2) (py p2), Stroke])"
proof (intro conjI)
  have "frame_ops (width f) (height f) (particles f) =
        (\<lambda>i. draw (update (width f) (height f) (particles f ! i)) @
                       concat (map (\<lambda>j. connect (update (width f) (height f) (particles f ! i))
                                                (particles f ! j))
                                   [i + 1..<length (particles f)]))"
    by (rule ext) (simp add: frame_ops_def)
  with forEach_particle_ops[of "width f" "height f" "particles f" 0]
  show "snd (animate f) =
     ClearRect 0 0 (width f) (height f) #
     concat (map (\<lambda>i. draw (update (width f) (height f) (particles f ! i)) @
                       concat (map (\<lambda>j. connect (update (width f) (height f) (particles f ! i))
                                                (particles f ! j))
                                   [i + 1..<length (particles f)]))
                 [0..<length (particles f)])"
    by (simp add: animate_def case_prod_beta)
qed (simp_all add: connect_def Let_def)

theorem animate_connections_witness:
  "sqrt ((3 - 0) * (3 - 0) + (4 - 0) * (4 - 0)) < (150 :: real) \<and>
   connect \<lparr> px = 3, py = 4, vx = 0, vy = 0, psize = 1 \<rparr> \<lparr> px = 0, py = 0, vx = 0, vy = 0, psize = 1 \<rparr>
     = [StrokeStyle (Rgba 0 229 255 (29 / 30)), LineWidth 0.5, BeginPath, MoveTo 3 4, LineTo 0 0, Stroke]"
  using animate_connections[of f "\<lparr> px = 3, py = 4, vx = 0, vy = 0, psize = 1 \<rparr>"
                               "\<lparr> px = 0, py = 0, vx = 0, vy = 0, psize = 1 \<rparr>"] sqrt25
  by simp

text \<open>
  C10: \<open>update\<close> leaves the size of a particle and the magnitudes of \<open>vx\<close> and \<open>vy\<close>
  unchanged; \<open>vx\<close> changes sign exactly when the new \<open>x\<close> is below 0 or above
  \<open>width\<close>, and \<open>vy\<close> exactly when the new \<open>y\<close> is below 0 or above \<open>height\<close>.
\<close>

theorem update_keeps_speed:
  "psize (update w h p) = psize p \<and>
   \<bar>vx (update w h p)\<bar> = \<bar>vx p\<bar> \<and> \<bar>vy (update w h p)\<bar> = \<bar>vy p\<bar> \<and>
   px (update w h p) = px p + vx p \<and> py (update w h p) = py p + vy p \<and>
   vx (update w h p) = (if px (update w h p) < 0 \<or> px (update w h p) > w then - vx p else vx p) \<and>
   vy (update w h p) = (if py (update w h p) < 0 \<or> py (update w h p) > h then - vy p else vy p)"
  by (simp add: update_def Let_def)

theorem update_keeps_speed_witness:
  "px (update 100 50 \<lparr> px = 99.8, py = 10, vx = 0.5, vy = 0.25, psize = 2 \<rparr>) = 100.3 \<and>
   vx (update 100 50 \<lparr> px = 99.8, py = 10, vx = 0.5, vy = 0.25, psize = 2 \<rparr>) = - 0.5 \<and>
   py (update 100 50 \<lparr> px = 99.8, py = 10, vx = 0.5, vy = 0.25, psize = 2 \<rparr>) = 10.25 \<and>
   vy (update 100 50 \<lparr> px = 99.8, py = 10, vx = 0.5, vy = 0.25, psize = 2 \<rparr>) = 0.25 \<and>
   psize (update 100 50 \<lparr> px = 99.8, py = 10, vx = 0.5, vy = 0.25, psize = 2 \<rparr>) = 2"
  using update_keeps_speed[of 100 50 "\<lparr> px = 99.8, py = 10, vx = 0.5, vy = 0.25, psize = 2 \<rparr>"]
  by simp

subsection \<open>Mobile menu\<close>

text \<open>
  C4: on a page with a navigation menu and three bars, after a click on the toggle or on
  a navigation link the menu carries the class \<open>active\<close> if and only if the bars are in
  the crossed configuration, and when \<open>active\<close> is absent the bars are in the reset
  configuration. The menu and the bars are still there afterwards, so this holds after
  any sequence of clicks.
\<close>

theorem menu_lockstep:
  assumes "navMenu p = Some nav" "3 \<le> length (bars p)"
  shows "\<exists>p'. menu_handle ev p = Ok p' \<and>
           (menu_active p' \<longleftrightarrow> bars_crossed p') \<and> (\<not> menu_active p' \<longrightarrow> bars_reset p') \<and>
           navMenu p' \<noteq> None \<and> length (bars p') = length (bars p)"
proof (cases ev)
  case ToggleClick
  let ?nav = "classList_toggle ''active'' nav"
  let ?p = "p\<lparr>navMenu := Some ?nav\<rparr>"
  have len: "3 \<le> length (bars ?p)" using assms(2) by simp
  show ?thesis
  proof (cases "classList_contains ''active'' ?nav")
    case True
    from cross_bars_ok[OF len] obtain p' where
      "cross_bars ?p = Ok p'" "navMenu p' = navMenu ?p" "length (bars p') = length (bars ?p)"
      "bars_crossed p'" by blast
    with True assms(1) ToggleClick show ?thesis
      by (simp add: menuToggle_click_def Let_def menu_active_def)
  next
    case False
    from reset_bars_ok[OF len] obtain p' where
      "reset_bars ?p = Ok p'" "navMenu p' = navMenu ?p" "length (bars p') = length (bars ?p)"
      "bars_reset p'" "\<not> bars_crossed p'" by blast
    with False assms(1) ToggleClick show ?thesis
      by (simp add: menuToggle_click_def Let_def menu_active_def)
  qed
next
  case (NavLinkClick n)
  let ?nav = "classList_remove ''active'' nav"
  let ?p = "p\<lparr>navMenu := Some ?nav\<rparr>"
  have len: "3 \<le> length (bars ?p)" using assms(2) by simp
  from reset_bars_ok[OF len] obtain p' where
    "reset_bars ?p = Ok p'" "navMenu p' = navMenu ?p" "length (bars p') = length (bars ?p)"
    "bars_reset p'" "\<not> bars_crossed p'" by blast
  with assms(1) NavLinkClick remove_not_contains[of "''active''" nav] show ?thesis
    by (simp add: navLink_click_def menu_active_def)
qed

theorem menu_lockstep_witness:
  "navMenu \<lparr> navMenu = Some plain, bars = [plain, plain, plain] \<rparr> = Some plain \<and>
   3 \<le> length (bars \<lparr> navMenu = Some plain, bars = [plain, plain, plain] \<rparr>) \<and>
   (\<exists>p'. menu_handle ToggleClick \<lparr> navMenu = Some plain, bars = [plain, plain, plain] \<rparr> = Ok p' \<and>
         menu_active p' \<and> bars_crossed p')"
proof -
  let ?p = "\<lparr> navMenu = Some plain, bars = [plain, plain, plain] \<rparr>"
  have act: "menu_handle ToggleClick ?p = Ok p' \<Longrightarrow> menu_active p'" for p'
    by (auto simp: menuToggle_click_def Let_def menu_active_def plain_def classList_toggle_def
        classList_add_def classList_contains_def cross_bars_def and_then_def set_bar_def)
  from menu_lockstep[of ?p plain ToggleClick] act show ?thesis by auto
qed

subsection \<open>Scroll reveal\<close>

text \<open>
  C6: initialisation gives every element matching one of the five class selectors
  opacity 0 and transform \<open>translateY(20px)\<close> and observes it; the observer callback
  gives every target it is notified of as intersecting the class \<open>visible\<close>, opacity 1
  and transform \<open>translateY(0)\<close>.
\<close>

theorem scroll_reveal:
  "(\<forall>i < length (dom p). matches_sel reveal_selector (dom p ! i) \<longrightarrow>
       hidden (dom (scroll_init p) ! i) \<and> i \<in> set (observed (scroll_init p)))
   \<and> (\<forall>e \<in> set entries. isIntersecting e \<and> target e < length (dom q) \<longrightarrow>
         revealed (dom (observer_callback entries q) ! target e))"
proof (intro conjI allI ballI impI)
  fix i assume "i < length (dom p)" "matches_sel reveal_selector (dom p ! i)"
  then have "i \<in> set (querySelectorAll reveal_selector (dom p))"
    by (simp add: querySelectorAll_def)
  from fold_hide[OF this \<open>i < length (dom p)\<close>]
  show "hidden (dom (scroll_init p) ! i)" "i \<in> set (observed (scroll_init p))"
    by (simp_all add: scroll_init_def)
next
  fix e assume "e \<in> set entries" "isIntersecting e \<and> target e < length (dom q)"
  then show "revealed (dom (observer_callback entries q) ! target e)"
    by (simp add: observer_callback_def fold_reveal)
qed

theorem scroll_reveal_witness:
  "(0 < length (dom \<lparr> dom = [card_el], observed = [] \<rparr>) \<and>
    matches_sel reveal_selector (dom \<lparr> dom = [card_el], observed = [] \<rparr> ! 0) \<and>
    hidden (dom (scroll_init \<lparr> dom = [card_el], observed = [] \<rparr>) ! 0) \<and>
    0 \<in> set (observed (scroll_init \<lparr> dom = [card_el], observed = [] \<rparr>))) \<and>
   (\<lparr> target = 0, isIntersecting = True \<rparr> \<in> set [\<lparr> target = 0, isIntersecting = True \<rparr>] \<and>
    isIntersecting \<lparr> target = 0, isIntersecting = True \<rparr> \<and>
    target \<lparr> target = 0, isIntersecting = True \<rparr> < length (dom (scroll_init \<lparr> dom = [card_el], observed = [] \<rparr>)) \<and>
    revealed (dom (observer_callback [\<lparr> target = 0, isIntersecting = True \<rparr>]
                     (scroll_init \<lparr> dom = [card_el], observed = [] \<rparr>)) ! 0))"
proof -
  let ?p = "\<lparr> dom = [card_el], observed = [] \<rparr>"
  let ?e = "\<lparr> target = 0, isIntersecting = True \<rparr>"
  have m: "matches_sel reveal_selector (dom ?p ! 0)"
    by (simp add: matches_sel_def reveal_selector_def card_el_def)
  have l: "length (dom (scroll_init ?p)) = 1"
    by (simp add: scroll_init_def fold_hide_length)
  from scroll_reveal[of ?p "[?e]" "scroll_init ?p"] m l show ?thesis by simp
qed

subsection \<open>Custom cursor\<close>

text \<open>
  C7, on a page that has both markers. The mousemove listener places the cursor marker
  at the coordinates of the event at once (its \<open>left\<close> and \<open>top\<close> read as these
  numbers of pixels), leaves the follower as it is and schedules a task due 50 ms
  later, behind the tasks of earlier events that are still pending. Until then the task
  stays pending; once it is due it has run, and the follower is at the coordinates of
  this event until the task of a later event runs. In general, when tasks are due the
  follower ends at the coordinates captured by the last of them, not at those of a task
  still pending, and when none is due nothing changes. The hover listeners are on
  exactly the elements that match \<open>a, button, .menu-toggle\<close>: \<open>mouseenter\<close> on such
  an element adds the class \<open>cursor-hover\<close> to the follower, \<open>mouseleave\<close> removes
  it, and the same events on any other element change nothing.
\<close>

theorem cursor_follows:
  assumes "cursor p = Some c" "follower p = Some f"
  shows "(\<exists>p'. mousemove now clientX clientY p = Ok p' \<and>
           placed_at clientX clientY (cursor p') \<and>
           follower p' = follower p \<and>
           timeouts p' = timeouts p @ [(now + 50, clientX, clientY)] \<and>
           (\<forall>t < now + 50.
              timeouts (run_all_due t p')
                = filter (\<lambda>task. \<not> is_due t task) (timeouts p) @ [(now + 50, clientX, clientY)]) \<and>
           (\<forall>t \<ge> now + 50.
              placed_at clientX clientY (follower (run_all_due t p')) \<and>
              (now + 50, clientX, clientY) \<notin> set (timeouts (run_all_due t p')) \<and>
              cursor (run_all_due t p') = cursor p'))
       \<and> (filter (is_due t) (timeouts p) = [] \<longrightarrow> run_all_due t p = p)
       \<and> (filter (is_due t) (timeouts p) \<noteq> [] \<longrightarrow>
              placed_at (fst (snd (last (filter (is_due t) (timeouts p)))))
                        (snd (snd (last (filter (is_due t) (timeouts p)))))
                        (follower (run_all_due t p)) \<and>
              timeouts (run_all_due t p) = filter (\<lambda>task. \<not> is_due t task) (timeouts p))
       \<and> hover_targets (cursor_st (result_state (cursor_statements pg s))) = links_of (all_nodes pg)
       \<and> (hover_targets p = links_of els \<longrightarrow> i < length els \<longrightarrow>
            (is_link (els ! i) \<longrightarrow>
               (\<exists>q. mouseenter_on i p = Ok q \<and> hovering q \<and> cursor q = cursor p \<and>
                    timeouts q = timeouts p) \<and>
               (\<exists>q. mouseleave_on i p = Ok q \<and> \<not> hovering q \<and> cursor q = cursor p \<and>
                    timeouts q = timeouts p)) \<and>
            (\<not> is_link (els ! i) \<longrightarrow> mouseenter_on i p = Ok p \<and> mouseleave_on i p = Ok p))"
proof (intro conjI)
  let ?new = "(now + 50, clientX, clientY)"
  let ?p = "p\<lparr> cursor := Some (set_style ''top'' (number_string clientY @ ''px'')
                                  (set_style ''left'' (number_string clientX @ ''px'') c)),
                 timeouts := timeouts p @ [?new] \<rparr>"
  have mv: "mousemove now clientX clientY p = Ok ?p"
    using assms(1) by (simp add: mousemove_def)
  have fol: "follower ?p \<noteq> None" using assms(2) by simp
  have early: "timeouts (run_all_due t ?p) = filter (\<lambda>task. \<not> is_due t task) (timeouts p) @ [?new]"
    if "t < now + 50" for t
    using run_all_due_props[OF fol, of t] that by (simp add: is_due_def)
  have late: "placed_at clientX clientY (follower (run_all_due t ?p)) \<and>
              ?new \<notin> set (timeouts (run_all_due t ?p)) \<and> cursor (run_all_due t ?p) = cursor ?p"
    if "now + 50 \<le> t" for t
    using run_all_due_props[OF fol, of t] that by (simp add: is_due_def)
  show "\<exists>p'. mousemove now clientX clientY p = Ok p' \<and>
           placed_at clientX clientY (cursor p') \<and>
           follower p' = follower p \<and>
           timeouts p' = timeouts p @ [(now + 50, clientX, clientY)] \<and>
           (\<forall>t < now + 50.
              timeouts (run_all_due t p')
                = filter (\<lambda>task. \<not> is_due t task) (timeouts p) @ [(now + 50, clientX, clientY)]) \<and>
           (\<forall>t \<ge> now + 50.
              placed_at clientX clientY (follower (run_all_due t p')) \<and>
              (now + 50, clientX, clientY) \<notin> set (timeouts (run_all_due t p')) \<and>
              cursor (run_all_due t p') = cursor p')"
  proof (intro exI[of _ ?p] conjI allI impI)
    show "mousemove now clientX clientY p = Ok ?p" by (rule mv)
    show "placed_at clientX clientY (cursor ?p)" by (simp add: placed_at_set)
    show "follower ?p = follower p" by simp
    show "timeouts ?p = timeouts p @ [?new]" by simp
  next
    fix t assume "t < now + 50"
    then show "timeouts (run_all_due t ?p) = filter (\<lambda>task. \<not> is_due t task) (timeouts p) @ [?new]"
      by (rule early)
  next
    fix t assume t: "now + 50 \<le> t"
    from late[OF t] show "placed_at clientX clientY (follower (run_all_due t ?p))"
      "?new \<notin> set (timeouts (run_all_due t ?p))" "cursor (run_all_due t ?p) = cursor ?p"
      by blast+
  qed
next
  show "filter (is_due t) (timeouts p) = [] \<longrightarrow> run_all_due t p = p"
    by (simp add: run_all_due_none)
next
  have "follower p \<noteq> None" using assms(2) by simp
  from run_all_due_props[OF this, of t]
  show "filter (is_due t) (timeouts p) \<noteq> [] \<longrightarrow>
              placed_at (fst (snd (last (filter (is_due t) (timeouts p)))))
                        (snd (snd (last (filter (is_due t) (timeouts p)))))
                        (follower (run_all_due t p)) \<and>
              timeouts (run_all_due t p) = filter (\<lambda>task. \<not> is_due t task) (timeouts p)"
    by blast
next
  show "hover_targets (cursor_st (result_state (cursor_statements pg s))) = links_of (all_nodes pg)"
    by (simp add: cursor_statements_def result_state_def)
next
  show "hover_targets p = links_of els \<longrightarrow> i < length els \<longrightarrow>
            (is_link (els ! i) \<longrightarrow>
               (\<exists>q. mouseenter_on i p = Ok q \<and> hovering q \<and> cursor q = cursor p \<and>
                    timeouts q = timeouts p) \<and>
               (\<exists>q. mouseleave_on i p = Ok q \<and> \<not> hovering q \<and> cursor q = cursor p \<and>
                    timeouts q = timeouts p)) \<and>
            (\<not> is_link (els ! i) \<longrightarrow> mouseenter_on i p = Ok p \<and> mouseleave_on i p = Ok p)"
  proof (intro impI conjI)
    assume h: "hover_targets p = links_of els" and i: "i < length els" and l: "is_link (els ! i)"
    then have "i \<in> set (hover_targets p)" by (simp add: links_of_iff)
    from hover_on_link[OF assms(2) this]
    show "\<exists>q. mouseenter_on i p = Ok q \<and> hovering q \<and> cursor q = cursor p \<and> timeouts q = timeouts p"
      "\<exists>q. mouseleave_on i p = Ok q \<and> \<not> hovering q \<and> cursor q = cursor p \<and> timeouts q = timeouts p"
      by blast+
  next
    assume h: "hover_targets p = links_of els" and i: "i < length els" and l: "\<not> is_link (els ! i)"
    then have n: "i \<notin> set (hover_targets p)" by (simp add: links_of_iff)
    then show "mouseenter_on i p = Ok p" "mouseleave_on i p = Ok p"
      by (simp_all add: mouseenter_on_def mouseleave_on_def)
  qed
qed

theorem cursor_follows_witness:
  "cursor moved_once \<noteq> None \<and> follower moved_once = Some plain \<and>
   (\<exists>p'. mousemove 1010 130 50 moved_once = Ok p' \<and>
      left_of (cursor p') = Some ''130px'' \<and> top_of (cursor p') = Some ''50px'' \<and>
      placed_at 130 50 (cursor p') \<and>
      timeouts p' = [(1050, 120, 45), (1060, 130, 50)] \<and>
      run_all_due 1049 p' = p' \<and>
      left_of (follower (run_all_due 1050 p')) = Some ''120px'' \<and>
      top_of (follower (run_all_due 1050 p')) = Some ''45px'' \<and>
      placed_at 120 45 (follower (run_all_due 1050 p')) \<and>
      \<not> placed_at 130 50 (follower (run_all_due 1050 p')) \<and>
      timeouts (run_all_due 1050 p') = [(1060, 130, 50)] \<and>
      left_of (follower (run_all_due 1060 p')) = Some ''130px'' \<and>
      top_of (follower (run_all_due 1060 p')) = Some ''50px'' \<and>
      placed_at 130 50 (follower (run_all_due 1060 p')) \<and>
      timeouts (run_all_due 1060 p') = []) \<and>
   filter (is_due 1050) (timeouts moved_once) = [(1050, 120, 45)] \<and>
   placed_at 120 45 (follower (run_all_due 1050 moved_once)) \<and>
   hover_targets moved_once = links_of [anchor_el, card_el, button_el, toggle_el] \<and>
   links_of [anchor_el, card_el, button_el, toggle_el] = [0, 2, 3] \<and>
   (\<exists>q. mouseenter_on 0 moved_once = Ok q \<and> hovering q) \<and>
   (\<exists>q. mouseleave_on 0 moved_once = Ok q \<and> \<not> hovering q) \<and>
   mouseenter_on 1 moved_once = Ok moved_once \<and> mouseleave_on 1 moved_once = Ok moved_once \<and>
   (\<exists>q. mouseenter_on 2 moved_once = Ok q \<and> hovering q) \<and>
   (\<exists>q. mouseenter_on 3 moved_once = Ok q \<and> hovering q)"
proof -
  let ?els = "[anchor_el, card_el, button_el, toggle_el]"
  have c: "cursor moved_once = Some (set_style ''top'' ''45px'' (set_style ''left'' ''120px'' plain))"
    and f: "follower moved_once = Some plain"
    by (simp_all add: moved_once_def)
  note th = cursor_follows[OF c f, of 1010 130 50 1050]
  from th[of pg s ?els 0] obtain p' where
    mv: "mousemove 1010 130 50 moved_once = Ok p'"
    and pl: "placed_at 130 50 (cursor p')"
    and late: "\<forall>t \<ge> 1010 + 50. placed_at 130 50 (follower (run_all_due t p'))"
    by blast
  have p': "p' = moved_once\<lparr> cursor := Some (set_style ''top'' ''50px''
                                  (set_style ''left'' ''130px''
                                    (set_style ''top'' ''45px'' (set_style ''left'' ''120px'' plain)))),
                 timeouts := [(1050, 120, 45), (1060, 130, 50)] \<rparr>"
    using mv by (simp add: mousemove_def moved_once_def number_string_samples)
  have l: "is_link (?els ! 0)" "\<not> is_link (?els ! 1)" "is_link (?els ! 2)" "is_link (?els ! 3)"
    by (simp_all add: is_link_def anchor_el_def card_el_def button_el_def toggle_el_def)
  have ls: "links_of ?els = [0, 2, 3]"
    using l by (simp add: links_of_def upt_conv_Cons)
  have h: "hover_targets moved_once = links_of ?els"
    by (simp add: moved_once_def)
  have due: "filter (is_due 1050) (timeouts moved_once) = [(1050, 120, 45)]"
    by (simp add: moved_once_def is_due_def)
  from th[of pg s ?els 0] due
  have first: "placed_at 120 45 (follower (run_all_due 1050 moved_once))" by simp
  from th[of pg s ?els 0] h l
  have e0: "\<exists>q. mouseenter_on 0 moved_once = Ok q \<and> hovering q"
    and l0: "\<exists>q. mouseleave_on 0 moved_once = Ok q \<and> \<not> hovering q"
    by auto
  from th[of pg s ?els 1] h l
  have e1: "mouseenter_on 1 moved_once = Ok moved_once" "mouseleave_on 1 moved_once = Ok moved_once"
    by simp_all
  from th[of pg s ?els 2] h l
  have e2: "\<exists>q. mouseenter_on 2 moved_once = Ok q \<and> hovering q" by auto
  from th[of pg s ?els 3] h l
  have e3: "\<exists>q. mouseenter_on 3 moved_once = Ok q \<and> hovering q" by auto
  have px: "px_value ''120px'' = Some 120" "px_value ''45px'' = Some 45"
    "px_value ''130px'' = Some 130" "px_value ''50px'' = Some 50"
    using px_value_number_string[of 120] px_value_number_string[of 45]
      px_value_number_string[of 130] px_value_number_string[of 50]
    by (simp_all add: number_string_samples)
  have run: "run_all_due 1049 p' = p'"
    "left_of (follower (run_all_due 1050 p')) = Some ''120px''"
    "top_of (follower (run_all_due 1050 p')) = Some ''45px''"
    "timeouts (run_all_due 1050 p') = [(1060, 130, 50)]"
    "left_of (follower (run_all_due 1060 p')) = Some ''130px''"
    "top_of (follower (run_all_due 1060 p')) = Some ''50px''"
    "timeouts (run_all_due 1060 p') = []"
    "left_of (cursor p') = Some ''130px''" "top_of (cursor p') = Some ''50px''"
    "timeouts p' = [(1050, 120, 45), (1060, 130, 50)]"
    by (simp_all add: p' moved_once_def run_all_due_def is_due_def fire_def follow_def
        result_state_def set_style_def number_string_samples left_of_def top_of_def plain_def)
  have pl2: "placed_at 120 45 (follower (run_all_due 1050 p'))"
    "\<not> placed_at 130 50 (follower (run_all_due 1050 p'))"
    using run(2,3) px
    by (auto simp: placed_at_def left_of_def top_of_def bind_eq_Some_conv)
  from late have pl3: "placed_at 130 50 (follower (run_all_due 1060 p'))" by simp
  from c f mv pl run pl2 pl3 due first h ls e0 l0 e1 e2 e3 show ?thesis by auto
qed

subsection \<open>Missing elements\<close>




end
